theory Spec2Isabelle
  imports Complex_Main "HOL-Library.Multiset"
begin

section \<open>Data model of script.js\<close>

text \<open>
  A subtask is the object literal \<^verbatim>\<open>{ text, done }\<close>; a task is the object literal
  built by the submit handler (script.js, lines 405-415). Field names that are not
  available as Isabelle names carry a prefix. The global array \<^verbatim>\<open>tasks\<close> is passed
  to the functions that read it and returned by those that change it. Writing the array
  to the storage (\<^verbatim>\<open>save\<close>) changes no task; it can throw, which ends the handler
  that called it.
\<close>

record subtask =
  sub_text :: string
  sub_done :: bool

record task =
  task_id :: string
  task_text :: string
  category :: string
  priority :: string
  due :: "string option"
  created :: int
  completed :: bool
  subtasks :: "subtask list"
  reminded :: bool

section \<open>Array primitives\<close>

text \<open>
  \<^verbatim>\<open>Array.prototype.findIndex\<close>: the index of the first element that satisfies
  the predicate, -1 when there is none.
\<close>

fun findIndex :: "('a \<Rightarrow> bool) \<Rightarrow> 'a list \<Rightarrow> int" where
  "findIndex P [] = - 1"
| "findIndex P (x # xs) =
     (if P x then 0
      else (let r = findIndex P xs in if r < 0 then - 1 else r + 1))"

text \<open>
  \<^verbatim>\<open>xs.splice(i, 1)\<close> leaves \<open>splice_out i xs\<close> in the array, and
  \<^verbatim>\<open>xs.splice(i, 0, x)\<close> leaves \<open>splice_in i x xs\<close>. A start index beyond the
  length is clamped to the length by \<^verbatim>\<open>splice\<close>, which is what \<open>take\<close> and
  \<open>drop\<close> do.
\<close>

definition splice_out :: "nat \<Rightarrow> 'a list \<Rightarrow> 'a list" where
  "splice_out i xs = take i xs @ drop (Suc i) xs"

definition splice_in :: "nat \<Rightarrow> 'a \<Rightarrow> 'a list \<Rightarrow> 'a list" where
  "splice_in i x xs = take i xs @ x # drop i xs"

section \<open>Reordering (script.js, lines 392-398)\<close>

definition has_id :: "string \<Rightarrow> task \<Rightarrow> bool" where
  "has_id i t = (task_id t = i)"

text \<open>
  \<^verbatim>\<open>
  function reorderTasks(fromId, toId) {
    const fromIdx = tasks.findIndex(t=>t.id === fromId);
    const toIdx = tasks.findIndex(t=>t.id === toId);
    if (fromIdx < 0 || toIdx < 0) return;
    const [item] = tasks.splice(fromIdx,1);
    tasks.splice(toIdx, 0, item);
  }
  \<close>
  The global \<^verbatim>\<open>tasks\<close> is passed in and the updated array is returned. Both indices
  are computed before the removal. \<open>item\<close> is the removed element: \<open>fromIdx\<close> is a
  valid index when the guard is passed (lemma \<open>findIndex_bounds\<close>).
\<close>

definition reorderTasks :: "string \<Rightarrow> string \<Rightarrow> task list \<Rightarrow> task list" where
  "reorderTasks fromId toId tasks =
     (let fromIdx = findIndex (has_id fromId) tasks;
          toIdx = findIndex (has_id toId) tasks
      in if fromIdx < 0 \<or> toIdx < 0 then tasks
         else (let item = tasks ! nat fromIdx;
                   tasks' = splice_out (nat fromIdx) tasks
               in splice_in (nat toIdx) item tasks'))"

text \<open>
  The drop handler (lines 363-372) calls \<open>reorderTasks\<close> unless the dragged id is
  empty or equal to the id of the target.
\<close>

definition drop_handler :: "string \<Rightarrow> string \<Rightarrow> task list \<Rightarrow> task list" where
  "drop_handler idFrom idTo tasks =
     (if idFrom = [] \<or> idFrom = idTo then tasks else reorderTasks idFrom idTo tasks)"

text \<open>
  The reading of section 4.1 of the specification, for comparison: the index of
  \<open>toId\<close> is looked up after the removal.
\<close>

definition reorder_spec :: "string \<Rightarrow> string \<Rightarrow> task list \<Rightarrow> task list" where
  "reorder_spec fromId toId tasks =
     (let fromIdx = findIndex (has_id fromId) tasks
      in if fromIdx < 0 \<or> findIndex (has_id toId) tasks < 0 \<or> fromId = toId then tasks
         else (let item = tasks ! nat fromIdx;
                   tasks' = splice_out (nat fromIdx) tasks
               in splice_in (nat (findIndex (has_id toId) tasks')) item tasks'))"

section \<open>Numbers and strings of the host language\<close>

text \<open>
  A JavaScript number is NaN, an infinity or a finite value. Finite values are kept as
  exact rationals: the time stamps and ranks this program computes with are integers
  far below \<open>2 ^ 53\<close>, where binary64 arithmetic is exact; rounding is not modelled.
  Every comparison with NaN is false.
\<close>

datatype jsnum = NaN | Fin rat | PInf | NInf

fun js_sub :: "jsnum \<Rightarrow> jsnum \<Rightarrow> jsnum" where
  "js_sub NaN y = NaN"
| "js_sub x NaN = NaN"
| "js_sub (Fin a) (Fin b) = Fin (a - b)"
| "js_sub (Fin a) PInf = NInf"
| "js_sub (Fin a) NInf = PInf"
| "js_sub PInf PInf = NaN"
| "js_sub PInf y = PInf"
| "js_sub NInf NInf = NaN"
| "js_sub NInf y = NInf"

fun js_lt :: "jsnum \<Rightarrow> jsnum \<Rightarrow> bool" where
  "js_lt (Fin a) (Fin b) = (a < b)"
| "js_lt (Fin a) PInf = True"
| "js_lt NInf (Fin b) = True"
| "js_lt NInf PInf = True"
| "js_lt x y = False"

definition js_gt :: "jsnum \<Rightarrow> jsnum \<Rightarrow> bool" where
  "js_gt x y = js_lt y x"

fun js_le :: "jsnum \<Rightarrow> jsnum \<Rightarrow> bool" where
  "js_le NaN y = False"
| "js_le x NaN = False"
| "js_le (Fin a) (Fin b) = (a \<le> b)"
| "js_le x PInf = True"
| "js_le NInf y = True"
| "js_le x y = False"

text \<open>
  A string is a list of code units; the model has the code units below 256. Of the
  white space and line terminators that \<^verbatim>\<open>String.prototype.trim\<close> removes, these
  are TAB, LF, VT, FF, CR, SPACE and NBSP.
\<close>

definition is_space :: "char \<Rightarrow> bool" where
  "is_space c = ((of_char c :: nat) \<in> {9, 10, 11, 12, 13, 32, 160})"

definition trim :: "string \<Rightarrow> string" where
  "trim s = rev (dropWhile is_space (rev (dropWhile is_space s)))"

section \<open>Host environment\<close>

text \<open>
  What the functions read from the page and the browser: the values of the four
  controls (\<^verbatim>\<open>searchEl\<close>, \<^verbatim>\<open>filterStatus\<close>, \<^verbatim>\<open>filterCategory\<close>, \<^verbatim>\<open>sortBy\<close>),
  the clock \<^verbatim>\<open>Date.now()\<close>, the time value \<^verbatim>\<open>new Date(s).getTime()\<close> of a date
  string (NaN for a string that is not a date), whether \<^verbatim>\<open>'Notification' in window\<close>
  holds, whether \<^verbatim>\<open>Notification.permission === 'granted'\<close> holds, whether the
  constructor \<^verbatim>\<open>new Notification(...)\<close> throws (it does where notifications can only
  be shown through a service worker), and whether \<^verbatim>\<open>localStorage.setItem\<close> throws
  when the array is written in a given state.
\<close>

record env =
  search_value :: string
  filter_status_value :: string
  filter_category_value :: string
  sort_by_value :: string
  clock :: int
  date_ms :: "string \<Rightarrow> jsnum"
  notification_supported :: bool
  permission_granted :: bool
  notification_throws :: bool
  setItem_throws :: "task list \<Rightarrow> bool"

text \<open>
  An exception ends the function that runs and every caller up to the event loop, and
  what was written before stays written. A function that changes a state therefore
  returns \<open>Inr\<close> the new state, or \<open>Inl\<close> the error with the state at the throw.
\<close>

datatype error = TypeError | QuotaExceededError

definition state_of :: "error \<times> 'a + 'a \<Rightarrow> 'a" where
  "state_of r = (case r of Inl (err, s) \<Rightarrow> s | Inr s \<Rightarrow> s)"

definition and_then :: "error \<times> 'a + 'a \<Rightarrow> ('a \<Rightarrow> error \<times> 'a + 'a) \<Rightarrow> error \<times> 'a + 'a" where
  "and_then r f = (case r of Inl x \<Rightarrow> Inl x | Inr s \<Rightarrow> f s)"

section \<open>Subtasks and derived completion (script.js, lines 214-319)\<close>

text \<open>
  What a node of the task list reads from its page: whether the write of \<^verbatim>\<open>save()\<close>
  throws when the task is in a given state (the other tasks of the array are as they
  are), and whether the row of a subtask text gets its delete button. The row is built
  by \<^verbatim>\<open>innerHTML\<close> from the text as it is (lines 220-224), so a text that opens a
  comment or a \<^verbatim>\<open>textarea\<close> swallows the button.
\<close>

record page =
  save_throws :: "task \<Rightarrow> bool"
  row_builds :: "string \<Rightarrow> bool"

text \<open>
  \<^verbatim>\<open>const save = () => localStorage.setItem(STORAGE_KEY, JSON.stringify(tasks));\<close>
  seen from one task.
\<close>

definition save_task :: "page \<Rightarrow> task \<Rightarrow> error \<times> task + task" where
  "save_task p task = (if save_throws p task then Inl (QuotaExceededError, task) else Inr task)"

text \<open>
  \<^verbatim>\<open>
  function updateTaskProgress() {
    let p = 0;
    if (task.subtasks && task.subtasks.length) {
      const total = task.subtasks.length;
      const done = task.subtasks.filter(x=>x.done).length;
      p = Math.round((done/total)*100);
      if (done === total && total>0) { task.completed = true; }
      else { task.completed = false; }
    } else { p = task.completed ? 100 : 0; }
    ...
    save();
  }
  \<close>
  The function is a closure over the task whose node is being built. \<open>updateTaskProgress\<close>
  is what it writes to the task; \<open>updateTaskProgress_save\<close> is the whole function, with
  the call of \<^verbatim>\<open>save\<close> that ends it. The percentage \<open>p\<close> only goes to the progress
  bar.
\<close>

definition updateTaskProgress :: "task \<Rightarrow> task" where
  "updateTaskProgress task =
     (if subtasks task \<noteq> [] then
        (let total = length (subtasks task);
             ndone = length (filter sub_done (subtasks task))
         in if ndone = total \<and> total > 0 then task\<lparr>completed := True\<rparr>
            else task\<lparr>completed := False\<rparr>)
      else task)"

definition updateTaskProgress_save :: "page \<Rightarrow> task \<Rightarrow> error \<times> task + task" where
  "updateTaskProgress_save p task = save_task p (updateTaskProgress task)"

text \<open>
  \<^verbatim>\<open>
  function renderSubtasks() {
    subtaskList.innerHTML = '';
    if (!task.subtasks) task.subtasks = [];
    task.subtasks.forEach((s, idx) => {
      const item = document.createElement('li');
      item.innerHTML = ...subcheck button, div.subtext holding ${s.text}, delete-sub button...;
      item.querySelector('.subcheck').addEventListener(...);
      item.querySelector('.delete-sub').addEventListener(...);
      ...
    });
    updateTaskProgress();
  }
  \<close>
  When the row of a subtask has no delete button, \<^verbatim>\<open>querySelector\<close> gives null and
  the call of \<^verbatim>\<open>addEventListener\<close> throws a TypeError; nothing has been written to
  the task then, and the call of \<^verbatim>\<open>updateTaskProgress\<close> in line 256 is not reached.
\<close>

definition renderSubtasks :: "page \<Rightarrow> task \<Rightarrow> error \<times> task + task" where
  "renderSubtasks p task =
     (if list_all (\<lambda>s. row_builds p (sub_text s)) (subtasks task)
      then updateTaskProgress_save p task
      else Inl (TypeError, task))"

text \<open>
  \<^verbatim>\<open>render\<close> (lines 114-127) calls \<^verbatim>\<open>createTaskNode\<close> on the tasks that
  \<^verbatim>\<open>applyFilters\<close> returns, one after the other, and \<^verbatim>\<open>createTaskNode\<close> touches
  its task only through the call of \<^verbatim>\<open>renderSubtasks\<close> in line 286, which writes
  to the task what \<open>updateTaskProgress\<close> writes, or nothing. A task that is filtered
  out gets no node, and \<^verbatim>\<open>render\<close> stops at the first \<^verbatim>\<open>createTaskNode\<close> that
  throws (line 198 assigns to the constant \<^verbatim>\<open>dueEl\<close> when the task is overdue and
  not completed; a row may fail to build; \<^verbatim>\<open>save\<close> may throw). The model takes the
  set of tasks that are written as a parameter: \<open>built i\<close> tells whether the call of
  \<^verbatim>\<open>updateTaskProgress\<close> in line 256 is reached for the task at index \<open>i\<close> of the
  array.
\<close>

definition render_task :: "bool \<Rightarrow> task \<Rightarrow> task" where
  "render_task b task = (if b then updateTaskProgress task else task)"

definition render :: "(nat \<Rightarrow> bool) \<Rightarrow> task list \<Rightarrow> task list" where
  "render b tasks =
     map (\<lambda>(i, t). render_task (b i) t) (zip [0..<length tasks] tasks)"

text \<open>
  The click handlers of a task node, as functions of the task they close over. The
  handlers of a row close over the subtask \<^verbatim>\<open>s\<close> and the index \<^verbatim>\<open>idx\<close> it had when
  the row was built. Rows are rebuilt by every \<^verbatim>\<open>renderSubtasks\<close>; after a handler that
  ended in an exception before that, the page can still show a row whose subtask is no
  longer in the list: then \<open>idx\<close> is outside the list, the assignment to \<^verbatim>\<open>s.done\<close>
  writes to an object the task no longer holds, and \<^verbatim>\<open>splice(idx,1)\<close> removes nothing.
  The call of \<^verbatim>\<open>computeOverallProgress\<close> that ends a handler reads the tasks and
  writes to the progress bar only.

  Toggling a subtask (lines 226-232):
  \<^verbatim>\<open>s.done = !s.done; save(); renderSubtasks(); updateTaskProgress(); ...\<close>
\<close>

definition subcheck_click :: "page \<Rightarrow> nat \<Rightarrow> task \<Rightarrow> error \<times> task + task" where
  "subcheck_click p idx task =
     (let task1 =
            (if idx < length (subtasks task) then
               (let s = subtasks task ! idx
                in task\<lparr>subtasks := (subtasks task)[idx := s\<lparr>sub_done := \<not> sub_done s\<rparr>]\<rparr>)
             else task)
      in and_then (and_then (save_task p task1) (renderSubtasks p)) (updateTaskProgress_save p))"

text \<open>
  Deleting a subtask (lines 234-240):
  \<^verbatim>\<open>task.subtasks.splice(idx,1); save(); renderSubtasks(); updateTaskProgress(); ...\<close>
\<close>

definition delete_sub_click :: "page \<Rightarrow> nat \<Rightarrow> task \<Rightarrow> error \<times> task + task" where
  "delete_sub_click p idx task =
     (let task1 = task\<lparr>subtasks := splice_out idx (subtasks task)\<rparr>
      in and_then (and_then (save_task p task1) (renderSubtasks p)) (updateTaskProgress_save p))"

text \<open>
  Adding a subtask (lines 289-298):
  \<^verbatim>\<open>
  const text = subtaskInput.value.trim();
  if (!text) return;
  task.subtasks = task.subtasks || [];
  task.subtasks.push({ text, done:false });
  subtaskInput.value = ''; save(); renderSubtasks(); computeOverallProgress();
  \<close>
\<close>

definition add_sub_click :: "page \<Rightarrow> string \<Rightarrow> task \<Rightarrow> error \<times> task + task" where
  "add_sub_click p subtask_input_value task =
     (let text = trim subtask_input_value
      in if text = [] then Inr task
         else (let task1 = task\<lparr>subtasks := subtasks task @ [\<lparr>sub_text = text, sub_done = False\<rparr>]\<rparr>
               in and_then (save_task p task1) (renderSubtasks p)))"

text \<open>
  Toggling the task (lines 307-319):
  \<^verbatim>\<open>
  if (task.subtasks && task.subtasks.length) {
    const allDone = task.subtasks.every(s=>s.done);
    task.subtasks.forEach(s=> s.done = !allDone);
    task.completed = !allDone;
  } else { task.completed = !task.completed; }
  save(); renderSubtasks(); render();
  \<close>
  The final \<^verbatim>\<open>render()\<close> writes to this task or not, and returns or throws;
  \<open>rebuilt\<close> and \<open>render_returns\<close> tell which.
\<close>

definition check_click :: "page \<Rightarrow> bool \<Rightarrow> bool \<Rightarrow> task \<Rightarrow> error \<times> task + task" where
  "check_click p rebuilt render_returns task =
     (let task1 =
            (if subtasks task \<noteq> [] then
               (let allDone = list_all sub_done (subtasks task)
                in task\<lparr>subtasks := map (\<lambda>s. s\<lparr>sub_done := \<not> allDone\<rparr>) (subtasks task),
                        completed := \<not> allDone\<rparr>)
             else task\<lparr>completed := \<not> completed task\<rparr>)
      in and_then (and_then (save_task p task1) (renderSubtasks p))
           (\<lambda>task2. if render_returns then Inr (render_task rebuilt task2)
                    else Inl (TypeError, render_task rebuilt task2)))"

text \<open>Invariant I1 of the data model, for one task.\<close>

definition derived_completion :: "task \<Rightarrow> bool" where
  "derived_completion task =
     (subtasks task \<noteq> [] \<longrightarrow> completed task = list_all sub_done (subtasks task))"

section \<open>Reminders (script.js, lines 65-89)\<close>

text \<open>
  \<^verbatim>\<open>
  function scheduleReminders() {
    if (!('Notification' in window)) return;
    const now = Date.now();
    tasks.forEach(task => {
      if (!task.due || task.reminded) return;
      const due = new Date(task.due).getTime();
      const remindAt = due - (30 * 60 * 1000);
      if (remindAt > now && remindAt - now < 24 * 3600 * 1000) {
        setTimeout(() => { ... }, remindAt - now);
        task.reminded = true;
      } else if (remindAt <= now && due > now && !task.reminded) {
        if (Notification.permission === 'granted' && !task.completed) {
          new Notification('Task due soon', { ... });
        }
        task.reminded = true;
      }
    });
    save();
  }
  \<close>
  \<open>remind_task\<close> is the callback of \<^verbatim>\<open>forEach\<close>. A due date that is null or the
  empty string is falsy. In the first branch the notification is built later, in the
  timer. In the second branch it is built before the task is marked, so a constructor
  that throws leaves the task as it is and ends the loop: \<open>forEach_remind\<close> keeps the
  tasks after it unchanged.
\<close>

definition remind_task :: "env \<Rightarrow> task \<Rightarrow> error \<times> task + task" where
  "remind_task e task =
     (case due task of
        None \<Rightarrow> Inr task
      | Some d \<Rightarrow>
          if d = [] \<or> reminded task then Inr task
          else (let now = Fin (of_int (clock e));
                    due_ms = date_ms e d;
                    remindAt = js_sub due_ms (Fin (30 * 60 * 1000))
                in if js_gt remindAt now \<and> js_lt (js_sub remindAt now) (Fin (24 * 3600 * 1000))
                   then Inr (task\<lparr>reminded := True\<rparr>)
                   else if js_le remindAt now \<and> js_gt due_ms now \<and> \<not> reminded task
                   then (if permission_granted e \<and> \<not> completed task \<and> notification_throws e
                         then Inl (TypeError, task)
                         else Inr (task\<lparr>reminded := True\<rparr>))
                   else Inr task))"

fun forEach_remind :: "env \<Rightarrow> task list \<Rightarrow> error \<times> task list + task list" where
  "forEach_remind e [] = Inr []"
| "forEach_remind e (task # rest) =
     (case remind_task e task of
        Inl (err, task') \<Rightarrow> Inl (err, task' # rest)
      | Inr task' \<Rightarrow>
          (case forEach_remind e rest of
             Inl (err, rest') \<Rightarrow> Inl (err, task' # rest')
           | Inr rest' \<Rightarrow> Inr (task' # rest')))"

definition save :: "env \<Rightarrow> task list \<Rightarrow> error \<times> task list + task list" where
  "save e tasks = (if setItem_throws e tasks then Inl (QuotaExceededError, tasks) else Inr tasks)"

definition scheduleReminders :: "env \<Rightarrow> task list \<Rightarrow> error \<times> task list + task list" where
  "scheduleReminders e tasks =
     (if \<not> notification_supported e then Inr tasks
      else and_then (forEach_remind e tasks) (save e))"

text \<open>The callback throws on a task: the constructor of line 83 is reached and throws.\<close>

definition notification_fails :: "env \<Rightarrow> task \<Rightarrow> bool" where
  "notification_fails e task = (case remind_task e task of Inl x \<Rightarrow> True | Inr task' \<Rightarrow> False)"

section \<open>Adding tasks (script.js, lines 36 and 401-423)\<close>

text \<open>
  \<^verbatim>\<open>Number.prototype.toString(36)\<close> on an integer: its digits in base 36, with a
  minus sign for a negative one.
\<close>

fun digits36 :: "nat \<Rightarrow> string" where
  "digits36 n =
     (if n < 36 then [''0123456789abcdefghijklmnopqrstuvwxyz'' ! n]
      else digits36 (n div 36) @ [''0123456789abcdefghijklmnopqrstuvwxyz'' ! (n mod 36)])"

declare digits36.simps [simp del]

definition toString36 :: "int \<Rightarrow> string" where
  "toString36 i = (if i < 0 then CHR ''-'' # digits36 (nat (- i)) else digits36 (nat i))"

text \<open>
  \<^verbatim>\<open>const uid = () => Date.now().toString(36) + Math.random().toString(36).slice(2,6);\<close>

  The two readings of the environment are parameters: the clock, and the string
  \<^verbatim>\<open>Math.random().toString(36).slice(2,6)\<close>, which holds at most four digits of
  base 36.
\<close>

definition uid :: "int \<Rightarrow> string \<Rightarrow> string" where
  "uid now_ms random_digits = toString36 now_ms @ random_digits"

text \<open>
  One submission of the form: the values of the four inputs, the clock as \<^verbatim>\<open>uid()\<close>
  reads it, the random digits, the clock as the field \<^verbatim>\<open>created\<close> reads it, and
  the course of \<^verbatim>\<open>render()\<close>: the nodes it builds and whether it returns (it does
  not when a \<^verbatim>\<open>createTaskNode\<close> throws).
\<close>

record submit_event =
  input_value :: string
  category_value :: string
  priority_value :: string
  date_value :: string
  uid_clock :: int
  uid_random :: string
  created_clock :: int
  built :: "nat \<Rightarrow> bool"
  render_returned :: bool

text \<open>
  \<^verbatim>\<open>
  const text = input.value.trim();
  if (!text) return;
  const newTask = { id: uid(), text, category: categorySel.value,
    priority: prioritySel.value, due: dateInput.value || null, created: Date.now(),
    completed: false, subtasks: [], reminded: false };
  tasks.unshift(newTask);
  save(); input.value = ''; dateInput.value = '';
  render();
  scheduleReminders();
  \<close>
  \<open>submit_handler\<close> gives the array as the handler leaves it, whether it returns or
  ends in an exception of \<^verbatim>\<open>save\<close>, \<^verbatim>\<open>render\<close> or \<^verbatim>\<open>scheduleReminders\<close>.
\<close>

definition newTask :: "submit_event \<Rightarrow> task" where
  "newTask ev =
     \<lparr>task_id = uid (uid_clock ev) (uid_random ev),
      task_text = trim (input_value ev),
      category = category_value ev,
      priority = priority_value ev,
      due = (if date_value ev = [] then None else Some (date_value ev)),
      created = created_clock ev,
      completed = False,
      subtasks = [],
      reminded = False\<rparr>"

definition submit_handler :: "env \<Rightarrow> submit_event \<Rightarrow> task list \<Rightarrow> task list" where
  "submit_handler e ev tasks =
     (if trim (input_value ev) = [] then tasks
      else (let tasks1 = newTask ev # tasks
            in if setItem_throws e tasks1 then tasks1
               else (let tasks2 = render (built ev) tasks1
                     in if render_returned ev then state_of (scheduleReminders e tasks2)
                        else tasks2)))"

text \<open>A sequence of submissions, each in its own environment.\<close>

fun add_all :: "(env \<times> submit_event) list \<Rightarrow> task list \<Rightarrow> task list" where
  "add_all [] tasks = tasks"
| "add_all ((e, ev) # evs) tasks = add_all evs (submit_handler e ev tasks)"

text \<open>The ids that the valid submissions of a sequence draw, in their order.\<close>

definition drawn_ids :: "(env \<times> submit_event) list \<Rightarrow> string list" where
  "drawn_ids evs =
     map (\<lambda>(e, ev). uid (uid_clock ev) (uid_random ev))
       (filter (\<lambda>(e, ev). trim (input_value ev) \<noteq> []) evs)"

text \<open>
  The fields of a task that neither \<^verbatim>\<open>render\<close> nor \<^verbatim>\<open>scheduleReminders\<close> writes:
  all but \<^verbatim>\<open>completed\<close> and \<^verbatim>\<open>reminded\<close>.
\<close>

definition kept_fields ::
  "task \<Rightarrow> string \<times> string \<times> string \<times> string \<times> string option \<times> int \<times> subtask list" where
  "kept_fields t = (task_id t, task_text t, category t, priority t, due t, created t, subtasks t)"

section \<open>Filtering and sorting (script.js, lines 129-157)\<close>

text \<open>
  \<^verbatim>\<open>String.prototype.toLowerCase\<close> on the code units below 256: the letters A-Z and
  the upper case letters of Latin-1 (0xC0-0xDE without the multiplication sign 0xD7)
  move up by 32. \<^verbatim>\<open>s.includes(q)\<close> tells whether \<open>q\<close> occurs in \<open>s\<close>.
\<close>

definition lower_char :: "char \<Rightarrow> char" where
  "lower_char c =
     (let n = (of_char c :: nat)
      in if (65 \<le> n \<and> n \<le> 90) \<or> (192 \<le> n \<and> n \<le> 222 \<and> n \<noteq> 215) then char_of (n + 32) else c)"

definition toLowerCase :: "string \<Rightarrow> string" where
  "toLowerCase s = map lower_char s"

fun str_includes :: "string \<Rightarrow> string \<Rightarrow> bool" where
  "str_includes [] q = (q = [])"
| "str_includes (c # cs) q = (take (length q) (c # cs) = q \<or> str_includes cs q)"

text \<open>
  The conversion of a string to a number that the operator \<^verbatim>\<open>-\<close> applies to a string
  operand (StringToNumber of ECMAScript): white space is trimmed; the empty string is 0;
  then the string must be a binary, octal or hexadecimal literal with its prefix, or an
  optionally signed \<^verbatim>\<open>Infinity\<close> or decimal literal (digits, an optional fraction, an
  optional exponent); any other string is NaN. The value of a literal is exact here
  (no rounding to binary64).
\<close>

definition is_digit :: "char \<Rightarrow> bool" where
  "is_digit c = (c \<in> set ''0123456789'')"

fun char_index :: "char \<Rightarrow> string \<Rightarrow> nat" where
  "char_index c [] = 0"
| "char_index c (d # ds) = (if c = d then 0 else Suc (char_index c ds))"

definition digits_value :: "nat \<Rightarrow> string \<Rightarrow> nat" where
  "digits_value base ds =
     foldl (\<lambda>n c. base * n + char_index (lower_char c) ''0123456789abcdef'') 0 ds"

definition exponent_part :: "string \<Rightarrow> int option" where
  "exponent_part s =
     (case s of
        [] \<Rightarrow> Some 0
      | c # r \<Rightarrow>
          if c = CHR ''e'' \<or> c = CHR ''E'' then
            (let sign = (case r of [] \<Rightarrow> 1 | d # r' \<Rightarrow> if d = CHR ''-'' then - 1 else (1::int));
                 ds = (case r of [] \<Rightarrow> [] | d # r' \<Rightarrow> if d = CHR ''+'' \<or> d = CHR ''-'' then r' else r)
             in if ds \<noteq> [] \<and> list_all is_digit ds then Some (sign * int (digits_value 10 ds))
                else None)
          else None)"

definition pow10 :: "int \<Rightarrow> rat" where
  "pow10 k = (if 0 \<le> k then 10 ^ nat k else 1 / 10 ^ nat (- k))"

definition unsigned_decimal :: "string \<Rightarrow> jsnum" where
  "unsigned_decimal s =
     (if s = ''Infinity'' then PInf
      else (let ip = takeWhile is_digit s;
                r1 = dropWhile is_digit s;
                fp = (case r1 of [] \<Rightarrow> [] | c # r \<Rightarrow> if c = CHR ''.'' then takeWhile is_digit r else []);
                r2 = (case r1 of [] \<Rightarrow> [] | c # r \<Rightarrow> if c = CHR ''.'' then dropWhile is_digit r else r1)
            in if ip = [] \<and> fp = [] then NaN
               else (case exponent_part r2 of
                       None \<Rightarrow> NaN
                     | Some k \<Rightarrow>
                         Fin ((of_nat (digits_value 10 ip) +
                               of_nat (digits_value 10 fp) / 10 ^ length fp) * pow10 k))))"

definition non_decimal :: "string \<Rightarrow> jsnum option" where
  "non_decimal s =
     (case s of
        c0 # c1 # ds \<Rightarrow>
          if c0 = CHR ''0'' \<and> ds \<noteq> [] then
            (if lower_char c1 = CHR ''x'' \<and> list_all (\<lambda>c. lower_char c \<in> set ''0123456789abcdef'') ds
               then Some (Fin (of_nat (digits_value 16 ds)))
             else if lower_char c1 = CHR ''o'' \<and> list_all (\<lambda>c. c \<in> set ''01234567'') ds
               then Some (Fin (of_nat (digits_value 8 ds)))
             else if lower_char c1 = CHR ''b'' \<and> list_all (\<lambda>c. c \<in> set ''01'') ds
               then Some (Fin (of_nat (digits_value 2 ds)))
             else None)
          else None
      | _ \<Rightarrow> None)"

fun js_neg :: "jsnum \<Rightarrow> jsnum" where
  "js_neg NaN = NaN"
| "js_neg (Fin a) = Fin (- a)"
| "js_neg PInf = NInf"
| "js_neg NInf = PInf"

definition StringToNumber :: "string \<Rightarrow> jsnum" where
  "StringToNumber s =
     (let t = trim s
      in case non_decimal t of
           Some v \<Rightarrow> v
         | None \<Rightarrow>
             (case t of
                [] \<Rightarrow> Fin 0
              | c # r \<Rightarrow>
                  if c = CHR ''+'' then unsigned_decimal r
                  else if c = CHR ''-'' then js_neg (unsigned_decimal r)
                  else unsigned_decimal t))"

text \<open>
  The predicates of the three filters:
  \<^verbatim>\<open>
  t => t.text.toLowerCase().includes(q) ||
       (t.subtasks && t.subtasks.some(s => s.text.toLowerCase().includes(q)))
  t => t.due && new Date(t.due).getTime() < now && !t.completed
  \<close>
\<close>

definition matches_search :: "string \<Rightarrow> task \<Rightarrow> bool" where
  "matches_search q t =
     (str_includes (toLowerCase (task_text t)) q \<or>
      list_ex (\<lambda>s. str_includes (toLowerCase (sub_text s)) q) (subtasks t))"

definition is_overdue :: "env \<Rightarrow> task \<Rightarrow> bool" where
  "is_overdue e t =
     (case due t of
        None \<Rightarrow> False
      | Some d \<Rightarrow> d \<noteq> [] \<and> js_lt (date_ms e d) (Fin (of_int (clock e))) \<and> \<not> completed t)"

text \<open>
  The comparators:
  \<^verbatim>\<open>
  if (s === 'created_desc') filtered.sort((a,b)=> b.created - a.created);
  else if (s === 'date_asc') filtered.sort((a,b)=> (a.due||Infinity) - (b.due||Infinity));
  else if (s === 'date_desc') filtered.sort((a,b)=> (b.due||0) - (a.due||0));
  else if (s === 'priority_desc') {
    const p = { 'High':3, 'Medium':2, 'Low':1 };
    filtered.sort((a,b)=> (p[b.priority]||0) - (p[a.priority]||0));
  }
  \<close>
  \<open>due_or dflt t\<close> is the operand \<^verbatim>\<open>(t.due||dflt)\<close> as the subtraction reads it:
  \<^verbatim>\<open>due\<close> is null or the string of the date input (lines 410 and 439), and the
  subtraction converts a string with StringToNumber. In \<open>priority_rank\<close>, a name that
  the object \<^verbatim>\<open>p\<close> inherits from \<^verbatim>\<open>Object.prototype\<close> yields a function or an
  object, which the subtraction converts to NaN.
\<close>

definition due_or :: "jsnum \<Rightarrow> task \<Rightarrow> jsnum" where
  "due_or dflt t =
     (case due t of None \<Rightarrow> dflt | Some d \<Rightarrow> if d = [] then dflt else StringToNumber d)"

definition object_prototype_keys :: "string list" where
  "object_prototype_keys =
     [''constructor'', ''__defineGetter__'', ''__defineSetter__'', ''hasOwnProperty'',
      ''__lookupGetter__'', ''__lookupSetter__'', ''isPrototypeOf'', ''propertyIsEnumerable'',
      ''toString'', ''valueOf'', ''__proto__'', ''toLocaleString'']"

definition priority_rank :: "string \<Rightarrow> jsnum" where
  "priority_rank x =
     (if x = ''High'' then Fin 3 else if x = ''Medium'' then Fin 2 else if x = ''Low'' then Fin 1
      else if x \<in> set object_prototype_keys then NaN else Fin 0)"

definition comparator :: "string \<Rightarrow> (task \<Rightarrow> task \<Rightarrow> jsnum) option" where
  "comparator s =
     (if s = ''created_desc'' then Some (\<lambda>a b. Fin (of_int (created b - created a)))
      else if s = ''date_asc'' then Some (\<lambda>a b. js_sub (due_or PInf a) (due_or PInf b))
      else if s = ''date_desc'' then Some (\<lambda>a b. js_sub (due_or (Fin 0) b) (due_or (Fin 0) a))
      else if s = ''priority_desc'' then
        Some (\<lambda>a b. js_sub (priority_rank (priority b)) (priority_rank (priority a)))
      else None)"

text \<open>
  \<^verbatim>\<open>Array.prototype.sort\<close> with a comparator. A result NaN of the comparator counts
  as 0 (SortCompare), and the sort is stable: an element moves behind another one only
  when the comparator says it is greater. For a comparator that is a consistent order
  every stable sort gives the same array; for the others the order is left to the
  implementation, and the model is the insertion sort that inserts from the right end.
\<close>

definition sort_compare :: "('a \<Rightarrow> 'a \<Rightarrow> jsnum) \<Rightarrow> 'a \<Rightarrow> 'a \<Rightarrow> jsnum" where
  "sort_compare cmp x y = (case cmp x y of NaN \<Rightarrow> Fin 0 | v \<Rightarrow> v)"

fun insert_sorted :: "('a \<Rightarrow> 'a \<Rightarrow> jsnum) \<Rightarrow> 'a \<Rightarrow> 'a list \<Rightarrow> 'a list" where
  "insert_sorted cmp x [] = [x]"
| "insert_sorted cmp x (y # ys) =
     (if js_gt (sort_compare cmp x y) (Fin 0) then y # insert_sorted cmp x ys else x # y # ys)"

definition array_sort :: "('a \<Rightarrow> 'a \<Rightarrow> jsnum) \<Rightarrow> 'a list \<Rightarrow> 'a list" where
  "array_sort cmp xs = foldr (insert_sorted cmp) xs []"

text \<open>
  Arrays are objects: \<^verbatim>\<open>slice\<close> and \<^verbatim>\<open>filter\<close> make a new array, \<^verbatim>\<open>sort\<close>
  sorts the array it is called on. The store of arrays is a list, an address is an
  index into it, and a new array goes to the end. The arrays hold the tasks themselves:
  \<^verbatim>\<open>applyFilters\<close> writes to no task.
\<close>

type_synonym heap = "task list list"

definition alloc :: "heap \<Rightarrow> task list \<Rightarrow> heap \<times> nat" where
  "alloc h xs = (h @ [xs], length h)"

definition filter_array :: "(task \<Rightarrow> bool) \<Rightarrow> heap \<times> nat \<Rightarrow> heap \<times> nat" where
  "filter_array p s = (case s of (h, a) \<Rightarrow> alloc h (filter p (h ! a)))"

definition sort_array :: "(task \<Rightarrow> task \<Rightarrow> jsnum) \<Rightarrow> heap \<times> nat \<Rightarrow> heap \<times> nat" where
  "sort_array cmp s = (case s of (h, a) \<Rightarrow> (h[a := array_sort cmp (h ! a)], a))"

text \<open>
  \<^verbatim>\<open>
  function applyFilters(list) {
    const q = (searchEl.value || '').trim().toLowerCase();
    let filtered = list.slice();
    if (q) filtered = filtered.filter(...);
    const status = filterStatus.value;
    const now = Date.now();
    if (status === 'pending') filtered = filtered.filter(t => !t.completed);
    else if (status === 'completed') filtered = filtered.filter(t => t.completed);
    else if (status === 'overdue') filtered = filtered.filter(...);
    const cat = filterCategory.value;
    if (cat !== 'all') filtered = filtered.filter(t => t.category === cat);
    const s = sortBy.value;
    ... filtered.sort(...) ...
    return filtered;
  }
  \<close>
  The function takes the store and the address of \<^verbatim>\<open>list\<close> and returns the store
  and the address of the result; an address that holds no array gives \<open>None\<close>.
\<close>

definition applyFilters :: "env \<Rightarrow> heap \<Rightarrow> nat \<Rightarrow> (heap \<times> nat) option" where
  "applyFilters e h list =
     (if length h \<le> list then None
      else (let q = toLowerCase (trim (search_value e));
                filtered0 = alloc h (h ! list);
                filtered1 = (if q \<noteq> [] then filter_array (matches_search q) filtered0
                             else filtered0);
                status = filter_status_value e;
                filtered2 =
                  (if status = ''pending'' then filter_array (\<lambda>t. \<not> completed t) filtered1
                   else if status = ''completed'' then filter_array completed filtered1
                   else if status = ''overdue'' then filter_array (is_overdue e) filtered1
                   else filtered1);
                cat = filter_category_value e;
                filtered3 = (if cat \<noteq> ''all'' then filter_array (\<lambda>t. category t = cat) filtered2
                             else filtered2)
            in Some (case comparator (sort_by_value e) of
                       None \<Rightarrow> filtered3
                     | Some cmp \<Rightarrow> sort_array cmp filtered3)))"

text \<open>The array that \<open>applyFilters\<close> returns, as a function of the array it is given.\<close>

definition filtered_view :: "env \<Rightarrow> task list \<Rightarrow> task list" where
  "filtered_view e list =
     (let q = toLowerCase (trim (search_value e));
          filtered1 = (if q \<noteq> [] then filter (matches_search q) list else list);
          status = filter_status_value e;
          filtered2 =
            (if status = ''pending'' then filter (\<lambda>t. \<not> completed t) filtered1
             else if status = ''completed'' then filter completed filtered1
             else if status = ''overdue'' then filter (is_overdue e) filtered1
             else filtered1);
          cat = filter_category_value e;
          filtered3 = (if cat \<noteq> ''all'' then filter (\<lambda>t. category t = cat) filtered2 else filtered2)
      in case comparator (sort_by_value e) of
           None \<Rightarrow> filtered3
         | Some cmp \<Rightarrow> array_sort cmp filtered3)"

text \<open>
  A store and address that come from the store \<open>h\<close> by allocation: the arrays of
  \<open>h\<close> are as they were and the address is a new one.
\<close>

definition extends :: "heap \<Rightarrow> heap \<times> nat \<Rightarrow> bool" where
  "extends h s = (take (length h) (fst s) = h \<and> length h \<le> snd s \<and> snd s < length (fst s))"

definition array_of :: "heap \<times> nat \<Rightarrow> task list" where
  "array_of s = fst s ! snd s"

text \<open>
  For comparison, the operand of the date comparator with the due date read as the
  other functions read it (\<^verbatim>\<open>new Date(t.due).getTime()\<close> in lines 70, 141, 197 and
  376).
\<close>

definition due_time_or :: "env \<Rightarrow> jsnum \<Rightarrow> task \<Rightarrow> jsnum" where
  "due_time_or e dflt t =
     (case due t of None \<Rightarrow> dflt | Some d \<Rightarrow> if d = [] then dflt else date_ms e d)"

section \<open>Persistence (script.js, lines 37-42 and 429-438)\<close>

text \<open>
  The values of JSON, as \<^verbatim>\<open>JSON.parse\<close> builds them. An object is the list of its
  members in the order of the text; a later member with the same key overrides an
  earlier one when a property is read. Numbers are exact (no rounding to binary64).
\<close>

datatype json =
  JNull | JBool bool | JNum rat | JStr string | JArr "json list" | JObj "(string \<times> json) list"

datatype token =
  LBrace | RBrace | LBracket | RBracket | Colon | Comma
  | TStr string | TNum rat | TTrue | TFalse | TNull

text \<open>
  The text is read in two passes, tokens first. In a string, an escape \<^verbatim>\<open>\uXXXX\<close>
  above 00FF names a code unit that the strings of the model do not have; it is read as
  the substitute character 0x1A, so that a text is accepted exactly when JSON accepts
  it. A number is the longest run of number characters and must have the form of a JSON
  number; a word must be \<^verbatim>\<open>true\<close>, \<^verbatim>\<open>false\<close> or \<^verbatim>\<open>null\<close>.
\<close>

definition is_hex :: "char \<Rightarrow> bool" where
  "is_hex c = (lower_char c \<in> set ''0123456789abcdef'')"

definition unescape :: "char \<Rightarrow> char option" where
  "unescape c =
     (if c = CHR 0x22 then Some (CHR 0x22)
      else if c = CHR 0x5C then Some (CHR 0x5C)
      else if c = CHR ''/'' then Some (CHR ''/'')
      else if c = CHR ''b'' then Some (CHR 0x08)
      else if c = CHR ''f'' then Some (CHR 0x0C)
      else if c = CHR ''n'' then Some (CHR 0x0A)
      else if c = CHR ''r'' then Some (CHR 0x0D)
      else if c = CHR ''t'' then Some (CHR 0x09)
      else None)"

definition code_unit :: "string \<Rightarrow> char" where
  "code_unit hs = (let v = digits_value 16 hs in if v < 256 then char_of v else CHR 0x1A)"

fun scan_string :: "string \<Rightarrow> (string \<times> nat) option" where
  "scan_string [] = None"
| "scan_string (c # cs) =
     (if c = CHR 0x22 then Some ([], 1)
      else if c = CHR 0x5C then
        (case cs of
           [] \<Rightarrow> None
         | e # cs' \<Rightarrow>
             if e = CHR ''u'' then
               (if 4 \<le> length cs' \<and> list_all is_hex (take 4 cs') then
                  map_option (\<lambda>(s, n). (code_unit (take 4 cs') # s, n + 6)) (scan_string (drop 4 cs'))
                else None)
             else (case unescape e of
                     None \<Rightarrow> None
                   | Some ch \<Rightarrow> map_option (\<lambda>(s, n). (ch # s, n + 2)) (scan_string cs')))
      else if (of_char c :: nat) < 32 then None
      else map_option (\<lambda>(s, n). (c # s, n + 1)) (scan_string cs))"

definition json_number :: "string \<Rightarrow> rat option" where
  "json_number s =
     (let neg = (s \<noteq> [] \<and> hd s = CHR ''-'');
          r = (if neg then tl s else s);
          ip = takeWhile is_digit r;
          r1 = dropWhile is_digit r;
          has_frac = (r1 \<noteq> [] \<and> hd r1 = CHR ''.'');
          fp = (if has_frac then takeWhile is_digit (tl r1) else []);
          r2 = (if has_frac then dropWhile is_digit (tl r1) else r1)
      in if ip = [] \<or> (hd ip = CHR ''0'' \<and> ip \<noteq> ''0'') \<or> (has_frac \<and> fp = []) then None
         else (case exponent_part r2 of
                 None \<Rightarrow> None
               | Some k \<Rightarrow>
                   Some ((if neg then - 1 else 1) *
                         ((of_nat (digits_value 10 ip) + of_nat (digits_value 10 fp) / 10 ^ length fp)
                          * pow10 k))))"

definition is_num_char :: "char \<Rightarrow> bool" where
  "is_num_char c = (c \<in> set ''+-.0123456789eE'')"

definition is_word_char :: "char \<Rightarrow> bool" where
  "is_word_char c = (c \<in> set ''abcdefghijklmnopqrstuvwxyz'')"

fun lex :: "string \<Rightarrow> token list option" where
  "lex [] = Some []"
| "lex (c # cs) =
     (if c \<in> {CHR 0x20, CHR 0x09, CHR 0x0A, CHR 0x0D} then lex cs
      else if c = CHR ''{'' then map_option (Cons LBrace) (lex cs)
      else if c = CHR ''}'' then map_option (Cons RBrace) (lex cs)
      else if c = CHR ''['' then map_option (Cons LBracket) (lex cs)
      else if c = CHR '']'' then map_option (Cons RBracket) (lex cs)
      else if c = CHR '':'' then map_option (Cons Colon) (lex cs)
      else if c = CHR '','' then map_option (Cons Comma) (lex cs)
      else if c = CHR 0x22 then
        (case scan_string cs of
           None \<Rightarrow> None
         | Some (s, n) \<Rightarrow> map_option (Cons (TStr s)) (lex (drop n cs)))
      else if c = CHR ''-'' \<or> is_digit c then
        (case json_number (c # takeWhile is_num_char cs) of
           None \<Rightarrow> None
         | Some v \<Rightarrow> map_option (Cons (TNum v)) (lex (drop (length (takeWhile is_num_char cs)) cs)))
      else if is_word_char c then
        (let w = c # takeWhile is_word_char cs;
             rest = drop (length (takeWhile is_word_char cs)) cs
         in if w = ''true'' then map_option (Cons TTrue) (lex rest)
            else if w = ''false'' then map_option (Cons TFalse) (lex rest)
            else if w = ''null'' then map_option (Cons TNull) (lex rest)
            else None)
      else None)"

text \<open>
  The second pass runs a pushdown automaton over the tokens. A frame of the stack is an
  array or an object under construction (elements and members in reverse order), the
  object possibly with a key that waits for its value; the mode says what may come next.
\<close>

datatype frame =
  FArr "json list" | FObj "(string \<times> json) list" | FKey "(string \<times> json) list" string

datatype mode = Val | ValOrEnd | KeyOrEnd | Key | ColonM string | After | Done json

fun push_value :: "json \<Rightarrow> frame list \<Rightarrow> (frame list \<times> mode) option" where
  "push_value v [] = Some ([], Done v)"
| "push_value v (FArr es # st) = Some (FArr (v # es) # st, After)"
| "push_value v (FKey ms k # st) = Some (FObj ((k, v) # ms) # st, After)"
| "push_value v (FObj ms # st) = None"

fun scalar :: "token \<Rightarrow> json option" where
  "scalar (TStr s) = Some (JStr s)"
| "scalar (TNum v) = Some (JNum v)"
| "scalar TTrue = Some (JBool True)"
| "scalar TFalse = Some (JBool False)"
| "scalar TNull = Some JNull"
| "scalar t = None"

fun begin_value :: "token \<Rightarrow> frame list \<Rightarrow> (frame list \<times> mode) option" where
  "begin_value LBracket st = Some (FArr [] # st, ValOrEnd)"
| "begin_value LBrace st = Some (FObj [] # st, KeyOrEnd)"
| "begin_value t st = (case scalar t of None \<Rightarrow> None | Some v \<Rightarrow> push_value v st)"

fun step :: "frame list \<times> mode \<Rightarrow> token \<Rightarrow> (frame list \<times> mode) option" where
  "step (st, Val) t = begin_value t st"
| "step (FArr [] # st, ValOrEnd) RBracket = push_value (JArr []) st"
| "step (st, ValOrEnd) t = begin_value t st"
| "step (FObj [] # st, KeyOrEnd) RBrace = push_value (JObj []) st"
| "step (st, KeyOrEnd) (TStr k) = Some (st, ColonM k)"
| "step (st, Key) (TStr k) = Some (st, ColonM k)"
| "step (FObj ms # st, ColonM k) Colon = Some (FKey ms k # st, Val)"
| "step (FArr es # st, After) Comma = Some (FArr es # st, Val)"
| "step (FObj ms # st, After) Comma = Some (FObj ms # st, Key)"
| "step (FArr es # st, After) RBracket = push_value (JArr (rev es)) st"
| "step (FObj ms # st, After) RBrace = push_value (JObj (rev ms)) st"
| "step s t = None"

fun parse_tokens :: "frame list \<times> mode \<Rightarrow> token list \<Rightarrow> json option" where
  "parse_tokens (st, m) [] = (case (st, m) of ([], Done v) \<Rightarrow> Some v | _ \<Rightarrow> None)"
| "parse_tokens s (t # ts) = (case step s t of None \<Rightarrow> None | Some s' \<Rightarrow> parse_tokens s' ts)"

definition JSON_parse :: "string \<Rightarrow> json option" where
  "JSON_parse text = (case lex text of None \<Rightarrow> None | Some ts \<Rightarrow> parse_tokens ([], Val) ts)"

text \<open>
  \<^verbatim>\<open>
  const load = () => {
    try {
      tasks = JSON.parse(localStorage.getItem(STORAGE_KEY) || '[]');
    } catch { tasks = []; }
  };
  \<close>
  \<^verbatim>\<open>getItem\<close> throws, returns null for a missing key, or returns the stored string;
  null and the empty string are falsy and replaced by the text of the empty array. The
  result is the new value of the variable \<^verbatim>\<open>tasks\<close>.
\<close>

datatype storage_item = ReadError | Missing | Stored string

definition load :: "storage_item \<Rightarrow> json" where
  "load item =
     (case item of
        ReadError \<Rightarrow> JArr []
      | Missing \<Rightarrow> (case JSON_parse ''[]'' of None \<Rightarrow> JArr [] | Some v \<Rightarrow> v)
      | Stored s \<Rightarrow>
          (case JSON_parse (if s = [] then ''[]'' else s) of None \<Rightarrow> JArr [] | Some v \<Rightarrow> v))"

text \<open>
  What the data model of the specification calls a Task, read off a JSON value: an
  object with the nine fields of the object literal of line 405, each of its type.
\<close>

definition field :: "string \<Rightarrow> (string \<times> json) list \<Rightarrow> json option" where
  "field k ms = map_of (rev ms) k"

definition as_subtask :: "json \<Rightarrow> subtask option" where
  "as_subtask v =
     (case v of
        JObj ms \<Rightarrow>
          (case (field ''text'' ms, field ''done'' ms) of
             (Some (JStr t), Some (JBool d)) \<Rightarrow> Some \<lparr>sub_text = t, sub_done = d\<rparr>
           | _ \<Rightarrow> None)
      | _ \<Rightarrow> None)"

definition as_due :: "json option \<Rightarrow> string option option" where
  "as_due v = (case v of Some JNull \<Rightarrow> Some None | Some (JStr d) \<Rightarrow> Some (Some d) | _ \<Rightarrow> None)"

definition as_int :: "json option \<Rightarrow> int option" where
  "as_int v = (case v of Some (JNum r) \<Rightarrow> if r = of_int \<lfloor>r\<rfloor> then Some \<lfloor>r\<rfloor> else None | _ \<Rightarrow> None)"

definition as_subtasks :: "json option \<Rightarrow> subtask list option" where
  "as_subtasks v = (case v of Some (JArr xs) \<Rightarrow> those (map as_subtask xs) | _ \<Rightarrow> None)"

definition as_task :: "json \<Rightarrow> task option" where
  "as_task v =
     (case v of
        JObj ms \<Rightarrow>
          (case (field ''id'' ms, field ''text'' ms, field ''category'' ms, field ''priority'' ms,
                 as_due (field ''due'' ms), as_int (field ''created'' ms), field ''completed'' ms,
                 as_subtasks (field ''subtasks'' ms), field ''reminded'' ms) of
             (Some (JStr i), Some (JStr t), Some (JStr c), Some (JStr p), Some d, Some cr,
              Some (JBool co), Some ss, Some (JBool re)) \<Rightarrow>
               Some \<lparr>task_id = i, task_text = t, category = c, priority = p, due = d, created = cr,
                     completed = co, subtasks = ss, reminded = re\<rparr>
           | _ \<Rightarrow> None)
      | _ \<Rightarrow> None)"

definition is_task_array :: "json \<Rightarrow> bool" where
  "is_task_array v = (case v of JArr xs \<Rightarrow> list_all (\<lambda>x. as_task x \<noteq> None) xs | _ \<Rightarrow> False)"

text \<open>
  \<^verbatim>\<open>init\<close> calls \<^verbatim>\<open>seedIfEmpty\<close> right after \<^verbatim>\<open>load\<close>:
  \<^verbatim>\<open>
  function seedIfEmpty() {
    if (tasks.length) return;
    tasks = [ ...three sample tasks... ];
    save();
  }
  \<close>
  Reading a property of null throws a TypeError; a number or a boolean has no property
  \<^verbatim>\<open>length\<close>. The sample tasks take their ids and dates from the environment and
  are a parameter.
\<close>

fun length_of :: "json \<Rightarrow> error + json option" where
  "length_of JNull = Inl TypeError"
| "length_of (JArr xs) = Inr (Some (JNum (of_nat (length xs))))"
| "length_of (JStr s) = Inr (Some (JNum (of_nat (length s))))"
| "length_of (JObj ms) = Inr (field ''length'' ms)"
| "length_of v = Inr None"

fun truthy :: "json option \<Rightarrow> bool" where
  "truthy None = False"
| "truthy (Some JNull) = False"
| "truthy (Some (JBool b)) = b"
| "truthy (Some (JNum r)) = (r \<noteq> 0)"
| "truthy (Some (JStr s)) = (s \<noteq> [])"
| "truthy (Some v) = True"

definition seedIfEmpty :: "json \<Rightarrow> json \<Rightarrow> error + json" where
  "seedIfEmpty samples tasks =
     (case length_of tasks of
        Inl err \<Rightarrow> Inl err
      | Inr l \<Rightarrow> if truthy l then Inr tasks else Inr samples)"

section \<open>Example data\<close>

definition example_task :: "string \<Rightarrow> task" where
  "example_task i =
     \<lparr>task_id = i, task_text = ''t'', category = ''General'', priority = ''Low'', due = None,
      created = 0, completed = False, subtasks = [], reminded = False\<rparr>"

definition ex_ab :: "task list" where
  "ex_ab = [example_task ''a'', example_task ''b'']"

definition ex_abc :: "task list" where
  "ex_abc = [example_task ''a'', example_task ''b'', example_task ''c'']"

text \<open>
  An environment one hour before midnight UTC of 2025-01-10, with the time values of
  the two dates used below, and a submission of the form with an empty date input.
\<close>

definition ex_env :: env where
  "ex_env =
     \<lparr>search_value = [], filter_status_value = ''all'', filter_category_value = ''all'',
      sort_by_value = ''date_asc'', clock = 1736463600000,
      date_ms = (\<lambda>s. if s = ''2025-01-10'' then Fin 1736467200000
                       else if s = ''2025-01-05'' then Fin 1736035200000 else NaN),
      notification_supported = True, permission_granted = True, notification_throws = False,
      setItem_throws = (\<lambda>ts. False)\<rparr>"

definition ex_event :: submit_event where
  "ex_event =
     \<lparr>input_value = '' Buy milk '', category_value = ''Personal'', priority_value = ''Low'',
      date_value = [], uid_clock = 1736467200000, uid_random = ''k3f9'',
      created_clock = 1736467200000, built = (\<lambda>i. True), render_returned = True\<rparr>"

definition ex_sub_task :: task where
  "ex_sub_task =
     \<lparr>task_id = ''s'', task_text = ''Finish project report'', category = ''Work'',
      priority = ''High'', due = Some ''2025-01-10'', created = 0, completed = False,
      subtasks = [\<lparr>sub_text = ''Draft'', sub_done = True\<rparr>, \<lparr>sub_text = ''Review'', sub_done = False\<rparr>],
      reminded = False\<rparr>"

text \<open>
  A page on which every write succeeds and every row builds except the row of the text
  that opens a comment; the same page with a storage that is full as soon as the task
  has two subtasks; a task whose only subtask is done; and the environment ten minutes
  before the due time of \<open>ex_sub_task\<close>, in a browser whose \<^verbatim>\<open>Notification\<close>
  constructor throws.
\<close>

definition ex_page :: page where
  "ex_page = \<lparr>save_throws = (\<lambda>t. False), row_builds = (\<lambda>s. s \<noteq> ''<!--'')\<rparr>"

definition ex_page_full :: page where
  "ex_page_full = ex_page\<lparr>save_throws := (\<lambda>t. 2 \<le> length (subtasks t))\<rparr>"

definition ex_done_task :: task where
  "ex_done_task =
     ex_sub_task\<lparr>subtasks := [\<lparr>sub_text = ''Draft'', sub_done = True\<rparr>], completed := True\<rparr>"

definition ex_env_late :: env where
  "ex_env_late = ex_env\<lparr>clock := 1736466600000, notification_throws := True\<rparr>"

text \<open>
  Scenario E of the specification: three tasks with due date null, 2025-01-10 and
  2025-01-05, in this order.
\<close>

definition dated_task :: "string \<Rightarrow> string option \<Rightarrow> task" where
  "dated_task i d = (example_task i)\<lparr>due := d\<rparr>"

definition ex_dates :: "task list" where
  "ex_dates = [dated_task ''n'' None, dated_task ''j10'' (Some ''2025-01-10''),
               dated_task ''j05'' (Some ''2025-01-05'')]"

text \<open>
  A stored text as \<^verbatim>\<open>save\<close> writes it for one task with one subtask, and the value
  it denotes. \<open>dq\<close> puts a string between double quotes.
\<close>

definition dq :: "string \<Rightarrow> string" where
  "dq s = CHR 0x22 # s @ [CHR 0x22]"

definition ex_stored :: string where
  "ex_stored =
     ''[{'' @ dq ''id'' @ '':'' @ dq ''a1'' @ '','' @ dq ''text'' @ '':'' @ dq ''Buy milk'' @ '','' @
     dq ''category'' @ '':'' @ dq ''Personal'' @ '','' @ dq ''priority'' @ '':'' @ dq ''Low'' @ '','' @
     dq ''due'' @ '':null,'' @ dq ''created'' @ '':1736467200000,'' @ dq ''completed'' @ '':false,'' @
     dq ''subtasks'' @ '':[{'' @ dq ''text'' @ '':'' @ dq ''2%'' @ '','' @ dq ''done'' @ '':true}],'' @
     dq ''reminded'' @ '':false}]''"

definition ex_stored_json :: json where
  "ex_stored_json =
     JArr [JObj [(''id'', JStr ''a1''), (''text'', JStr ''Buy milk''), (''category'', JStr ''Personal''),
                 (''priority'', JStr ''Low''), (''due'', JNull), (''created'', JNum 1736467200000),
                 (''completed'', JBool False),
                 (''subtasks'', JArr [JObj [(''text'', JStr ''2%''), (''done'', JBool True)]]),
                 (''reminded'', JBool False)]]"

section \<open>Facts about the array primitives\<close>

lemma findIndex_bounds: "findIndex P xs = - 1 \<or> (0 \<le> findIndex P xs \<and> findIndex P xs < int (length xs))"
  by (induction xs) (auto simp: Let_def)

lemma findIndex_neg_iff: "findIndex P xs < 0 \<longleftrightarrow> (\<forall>x\<in>set xs. \<not> P x)"
  using findIndex_bounds [of P] by (induction xs) (auto simp: Let_def)

lemma findIndex_first:
  "\<forall>x\<in>set ps. \<not> P x \<Longrightarrow> P a \<Longrightarrow> findIndex P (ps @ a # rs) = int (length ps)"
  by (induction ps) (auto simp: Let_def)

lemma splice_out_middle: "splice_out (length ps) (ps @ a # rs) = ps @ rs"
  by (simp add: splice_out_def)

lemma splice_in_middle: "splice_in (length ps) x (ps @ rs) = ps @ x # rs"
  by (simp add: splice_in_def)

lemma mset_splice_out:
  "i < length xs \<Longrightarrow> mset (splice_out i xs) + {#xs ! i#} = mset xs"
proof -
  assume "i < length xs"
  then have "xs = take i xs @ xs ! i # drop (Suc i) xs"
    by (simp add: id_take_nth_drop)
  then have "mset xs = mset (take i xs @ xs ! i # drop (Suc i) xs)"
    by simp
  then show ?thesis
    by (simp add: splice_out_def)
qed

lemma mset_splice_in: "mset (splice_in i x xs) = mset xs + {#x#}"
proof -
  have "mset (take i xs) + mset (drop i xs) = mset xs"
    by (metis append_take_drop_id mset_append)
  then show ?thesis
    by (simp add: splice_in_def)
qed

text \<open>Moving a task forwards: the source stands before the target.\<close>

lemma reorderTasks_forward:
  assumes a: "task_id a = fromId" and b: "task_id b = toId" and ne: "fromId \<noteq> toId"
    and ps: "\<forall>t\<in>set ps. task_id t \<noteq> fromId \<and> task_id t \<noteq> toId"
    and ms: "\<forall>t\<in>set ms. task_id t \<noteq> toId"
  shows "reorderTasks fromId toId (ps @ a # ms @ b # rs) = ps @ ms @ b # a # rs"
proof -
  have f: "findIndex (has_id fromId) (ps @ a # ms @ b # rs) = int (length ps)"
    using a ps by (intro findIndex_first) (auto simp: has_id_def)
  have "findIndex (has_id toId) ((ps @ a # ms) @ b # rs) = int (length (ps @ a # ms))"
    using a b ne ps ms by (intro findIndex_first) (auto simp: has_id_def)
  then have t: "findIndex (has_id toId) (ps @ a # ms @ b # rs) = int (length ps + length ms + 1)"
    by simp
  have out: "splice_out (length ps) (ps @ a # ms @ b # rs) = ps @ ms @ b # rs"
    by (rule splice_out_middle)
  have "splice_in (length (ps @ ms @ [b])) a ((ps @ ms @ [b]) @ rs) = (ps @ ms @ [b]) @ a # rs"
    by (rule splice_in_middle)
  then have ins: "splice_in (length ps + length ms + 1) a (ps @ ms @ b # rs) = ps @ ms @ b # a # rs"
    by simp
  show ?thesis
    unfolding reorderTasks_def f t Let_def
    using out ins by (simp add: nat_add_distrib)
qed

text \<open>Moving a task backwards: the target stands before the source.\<close>

lemma reorderTasks_backward:
  assumes a: "task_id a = fromId" and b: "task_id b = toId" and ne: "fromId \<noteq> toId"
    and ps: "\<forall>t\<in>set ps. task_id t \<noteq> fromId \<and> task_id t \<noteq> toId"
    and ms: "\<forall>t\<in>set ms. task_id t \<noteq> fromId"
  shows "reorderTasks fromId toId (ps @ b # ms @ a # rs) = ps @ a # b # ms @ rs"
proof -
  have t: "findIndex (has_id toId) (ps @ b # ms @ a # rs) = int (length ps)"
    using b ps by (intro findIndex_first) (auto simp: has_id_def)
  have "findIndex (has_id fromId) ((ps @ b # ms) @ a # rs) = int (length (ps @ b # ms))"
    using a b ne ps ms by (intro findIndex_first) (auto simp: has_id_def)
  then have f: "findIndex (has_id fromId) (ps @ b # ms @ a # rs) = int (length ps + length ms + 1)"
    by simp
  have "splice_out (length (ps @ b # ms)) ((ps @ b # ms) @ a # rs) = (ps @ b # ms) @ rs"
    by (rule splice_out_middle)
  then have out: "splice_out (length ps + length ms + 1) (ps @ b # ms @ a # rs) = ps @ b # ms @ rs"
    by simp
  have item: "(ps @ b # ms @ a # rs) ! (length ps + length ms + 1) = a"
    by (simp add: nth_append)
  have ins: "splice_in (length ps) a (ps @ b # ms @ rs) = ps @ a # b # ms @ rs"
    by (rule splice_in_middle)
  show ?thesis
    unfolding reorderTasks_def f t Let_def
    using out ins item by (simp add: nat_add_distrib)
qed

lemma findIndex_hit: "0 \<le> findIndex P xs \<Longrightarrow> P (xs ! nat (findIndex P xs))"
proof (induction xs)
  case Nil
  then show ?case by simp
next
  case (Cons x xs)
  show ?case
  proof (cases "P x")
    case True
    then show ?thesis by simp
  next
    case False
    with Cons.prems have nn: "0 \<le> findIndex P xs"
      by (simp add: Let_def split: if_splits)
    with Cons.IH have "P (xs ! nat (findIndex P xs))" .
    with False nn show ?thesis
      by (simp add: Let_def nat_add_distrib)
  qed
qed

lemma splice_in_nth: "j \<le> length xs \<Longrightarrow> splice_in j x xs ! j = x"
  by (simp add: splice_in_def nth_append)

lemma splice_out_splice_in: "j \<le> length xs \<Longrightarrow> splice_out j (splice_in j x xs) = xs"
  by (simp add: splice_in_def splice_out_def min_def)

lemma length_splice_out: "i < length xs \<Longrightarrow> length (splice_out i xs) = length xs - 1"
  by (simp add: splice_out_def)

lemma reorderTasks_same: "reorderTasks i i ts = ts"
proof (cases "findIndex (has_id i) ts < 0")
  case True
  then show ?thesis by (simp add: reorderTasks_def)
next
  case False
  then obtain t where "t \<in> set ts" "has_id i t"
    by (auto simp: findIndex_neg_iff)
  then obtain ps a rs where d: "ts = ps @ a # rs" "has_id i a" "\<forall>t\<in>set ps. \<not> has_id i t"
    by (metis split_list_first_prop)
  then have f: "findIndex (has_id i) ts = int (length ps)"
    by (simp add: findIndex_first)
  show ?thesis
    unfolding reorderTasks_def f Let_def
    by (simp add: d splice_out_middle splice_in_middle)
qed

lemma reorderTasks_absent:
  "fromId \<notin> task_id ` set ts \<or> toId \<notin> task_id ` set ts \<Longrightarrow> reorderTasks fromId toId ts = ts"
proof -
  assume "fromId \<notin> task_id ` set ts \<or> toId \<notin> task_id ` set ts"
  then have "findIndex (has_id fromId) ts < 0 \<or> findIndex (has_id toId) ts < 0"
    by (auto simp: findIndex_neg_iff has_id_def)
  then show ?thesis
    by (auto simp: reorderTasks_def Let_def)
qed

lemma two_ids_split:
  assumes d: "distinct (map task_id ts)" and ne: "fromId \<noteq> toId"
    and f: "fromId \<in> task_id ` set ts" and t: "toId \<in> task_id ` set ts"
  shows "(\<exists>ps a ms b rs. ts = ps @ a # ms @ b # rs \<and> task_id a = fromId \<and> task_id b = toId \<and>
            (\<forall>t\<in>set (ps @ ms @ rs). task_id t \<noteq> fromId \<and> task_id t \<noteq> toId)) \<or>
         (\<exists>ps a ms b rs. ts = ps @ b # ms @ a # rs \<and> task_id a = fromId \<and> task_id b = toId \<and>
            (\<forall>t\<in>set (ps @ ms @ rs). task_id t \<noteq> fromId \<and> task_id t \<noteq> toId))"
proof -
  from f obtain a where a: "a \<in> set ts" "task_id a = fromId" by auto
  from t obtain b where b: "b \<in> set ts" "task_id b = toId" by auto
  from a obtain xs ys where s: "ts = xs @ a # ys" by (meson split_list)
  have nb: "b \<noteq> a" using a b ne by auto
  from b s nb have "b \<in> set xs \<or> b \<in> set ys" by auto
  then show ?thesis
  proof
    assume "b \<in> set xs"
    then obtain ps ms where x: "xs = ps @ b # ms" by (meson split_list)
    have "ts = ps @ b # ms @ a # ys" using s x by simp
    moreover have "\<forall>t\<in>set (ps @ ms @ ys). task_id t \<noteq> fromId \<and> task_id t \<noteq> toId"
      using d a b unfolding s x by (auto simp: image_iff)
    ultimately show ?thesis using a b by blast
  next
    assume "b \<in> set ys"
    then obtain ms rs where y: "ys = ms @ b # rs" by (meson split_list)
    have "ts = xs @ a # ms @ b # rs" using s y by simp
    moreover have "\<forall>t\<in>set (xs @ ms @ rs). task_id t \<noteq> fromId \<and> task_id t \<noteq> toId"
      using d a b unfolding s y by (auto simp: image_iff)
    ultimately show ?thesis using a b by blast
  qed
qed

lemma reorder_twice_swaps:
  assumes d: "distinct (map task_id ts)" and ne: "fromId \<noteq> toId"
    and f: "fromId \<in> task_id ` set ts" and t: "toId \<in> task_id ` set ts"
  shows "\<exists>xs a b ys. task_id a = fromId \<and> task_id b = toId \<and>
           ((reorderTasks fromId toId ts = xs @ b # a # ys \<and>
             reorderTasks fromId toId (reorderTasks fromId toId ts) = xs @ a # b # ys) \<or>
            (reorderTasks fromId toId ts = xs @ a # b # ys \<and>
             reorderTasks fromId toId (reorderTasks fromId toId ts) = xs @ b # a # ys)) \<and>
           reorderTasks fromId toId (reorderTasks fromId toId (reorderTasks fromId toId ts)) =
             reorderTasks fromId toId ts"
  using two_ids_split [OF d ne f t]
proof (elim disjE exE conjE)
  fix ps a ms b rs
  assume ts: "ts = ps @ a # ms @ b # rs" and a: "task_id a = fromId" and b: "task_id b = toId"
    and o: "\<forall>t\<in>set (ps @ ms @ rs). task_id t \<noteq> fromId \<and> task_id t \<noteq> toId"
  have 1: "reorderTasks fromId toId ts = (ps @ ms) @ b # a # rs"
    unfolding ts using reorderTasks_forward [OF a b ne, of ps ms rs] o by simp
  have 2: "reorderTasks fromId toId ((ps @ ms) @ b # [] @ a # rs) = (ps @ ms) @ a # b # [] @ rs"
    using o by (intro reorderTasks_backward [OF a b ne]) auto
  have 3: "reorderTasks fromId toId ((ps @ ms) @ a # [] @ b # rs) = (ps @ ms) @ [] @ b # a # rs"
    using o by (intro reorderTasks_forward [OF a b ne]) auto
  show ?thesis
    using a b 1 2 3 by (intro exI [of _ "ps @ ms"] exI [of _ a] exI [of _ b] exI [of _ rs]) simp
next
  fix ps a ms b rs
  assume ts: "ts = ps @ b # ms @ a # rs" and a: "task_id a = fromId" and b: "task_id b = toId"
    and o: "\<forall>t\<in>set (ps @ ms @ rs). task_id t \<noteq> fromId \<and> task_id t \<noteq> toId"
  have 1: "reorderTasks fromId toId ts = ps @ a # b # ms @ rs"
    unfolding ts using reorderTasks_backward [OF a b ne, of ps ms rs] o by simp
  have 2: "reorderTasks fromId toId (ps @ a # [] @ b # (ms @ rs)) = ps @ [] @ b # a # (ms @ rs)"
    using o by (intro reorderTasks_forward [OF a b ne]) auto
  have 3: "reorderTasks fromId toId (ps @ b # [] @ a # (ms @ rs)) = ps @ a # b # [] @ (ms @ rs)"
    using o by (intro reorderTasks_backward [OF a b ne]) auto
  show ?thesis
    using a b 1 2 3 by (intro exI [of _ ps] exI [of _ a] exI [of _ b] exI [of _ "ms @ rs"]) simp
qed

section \<open>Claims about reordering\<close>

text \<open>
  Claim C9. \<open>reorderTasks\<close> returns a permutation of the array it is given: the
  multiset of tasks is the same, so no task is lost or duplicated and every task keeps
  all of its fields; only the order changes. This holds for all ids, present or not.
\<close>

theorem reorder_perm: "mset (reorderTasks fromId toId tasks) = mset tasks"
proof (cases "findIndex (has_id fromId) tasks < 0 \<or> findIndex (has_id toId) tasks < 0")
  case True
  then show ?thesis by (auto simp: reorderTasks_def Let_def)
next
  case False
  then have "nat (findIndex (has_id fromId) tasks) < length tasks"
    using findIndex_bounds [of "has_id fromId" tasks] by auto
  then have "mset (splice_out (nat (findIndex (has_id fromId) tasks)) tasks) +
      {#tasks ! nat (findIndex (has_id fromId) tasks)#} = mset tasks"
    by (rule mset_splice_out)
  with False show ?thesis
    by (simp add: reorderTasks_def Let_def mset_splice_in)
qed

lemma reorder_position:
  assumes f: "fromId \<in> task_id ` set tasks" and t: "toId \<in> task_id ` set tasks"
  defines "i \<equiv> nat (findIndex (has_id fromId) tasks)"
    and "j \<equiv> nat (findIndex (has_id toId) tasks)"
  shows "reorderTasks fromId toId tasks ! j = tasks ! i"
    and "task_id (tasks ! i) = fromId"
    and "splice_out j (reorderTasks fromId toId tasks) = splice_out i tasks"
    and "i < j \<Longrightarrow> reorderTasks fromId toId tasks ! (j - 1) = tasks ! j"
    and "j < i \<Longrightarrow> reorderTasks fromId toId tasks ! (j + 1) = tasks ! j"
proof -
  have fi: "0 \<le> findIndex (has_id fromId) tasks" "0 \<le> findIndex (has_id toId) tasks"
    using f t findIndex_neg_iff [of "has_id fromId" tasks] findIndex_neg_iff [of "has_id toId" tasks]
    by (auto simp: has_id_def not_less [symmetric])
  then have il: "i < length tasks" and jl: "j < length tasks"
    using findIndex_bounds [of "has_id fromId" tasks] findIndex_bounds [of "has_id toId" tasks]
    by (auto simp: i_def j_def)
  have r: "reorderTasks fromId toId tasks = splice_in j (tasks ! i) (splice_out i tasks)"
    using fi by (simp add: reorderTasks_def Let_def i_def j_def)
  have len: "j \<le> length (splice_out i tasks)"
    using il jl by (simp add: length_splice_out)
  show "reorderTasks fromId toId tasks ! j = tasks ! i"
    unfolding r using len by (rule splice_in_nth)
  show "splice_out j (reorderTasks fromId toId tasks) = splice_out i tasks"
    unfolding r using len by (rule splice_out_splice_in)
  show "i < j \<Longrightarrow> reorderTasks fromId toId tasks ! (j - 1) = tasks ! j"
    unfolding r using il jl by (simp add: splice_in_def splice_out_def nth_append min_def)
  show "j < i \<Longrightarrow> reorderTasks fromId toId tasks ! (j + 1) = tasks ! j"
    unfolding r using il jl by (simp add: splice_in_def splice_out_def nth_append min_def)
  show "task_id (tasks ! i) = fromId"
    using findIndex_hit [OF fi(1)] by (simp add: i_def has_id_def)
qed

text \<open>
  Claim C1, amended. For ids \<open>fromId\<close> and \<open>toId\<close> present in the list,
  \<open>reorderTasks\<close> removes the first task with id \<open>fromId\<close> and reinserts it at the
  index that \<open>toId\<close> had before the removal: the moved task stands at that index in
  the result, the other tasks keep their order, and the task of \<open>toId\<close> stands
  immediately before the moved task when the source came first, immediately after it
  otherwise.
\<close>

theorem reorder_lands_at_old_index:
  assumes "fromId \<in> task_id ` set tasks" and "toId \<in> task_id ` set tasks"
  shows "(let i = nat (findIndex (has_id fromId) tasks);
              j = nat (findIndex (has_id toId) tasks);
              r = reorderTasks fromId toId tasks
          in r ! j = tasks ! i \<and> task_id (r ! j) = fromId \<and>
             splice_out j r = splice_out i tasks \<and>
             (i < j \<longrightarrow> r ! (j - 1) = tasks ! j) \<and>
             (j < i \<longrightarrow> r ! (j + 1) = tasks ! j))"
  unfolding Let_def using reorder_position [OF assms] by simp

theorem reorder_lands_at_old_index_witness:
  "reorderTasks ''a'' ''c'' ex_abc ! 2 = example_task ''a'' \<and>
   reorderTasks ''a'' ''c'' ex_abc ! 1 = example_task ''c'' \<and>
   splice_out 2 (reorderTasks ''a'' ''c'' ex_abc) = [example_task ''b'', example_task ''c'']"
  using reorder_lands_at_old_index [of "''a''" ex_abc "''c''"]
  by (simp add: ex_abc_def example_task_def has_id_def Let_def splice_out_def)

text \<open>
  The claim as stated fails: with the tasks a, b in this order, moving a onto b leaves
  a at index 1, while b stands at index 0 after the removal; the reading of the
  specification would leave the list unchanged, as it does whenever a task is moved
  onto its successor (lemma \<open>reorder_spec_next\<close>).
\<close>

lemma reorder_spec_next:
  assumes a: "task_id a = fromId" and b: "task_id b = toId" and ne: "fromId \<noteq> toId"
    and ps: "\<forall>t\<in>set ps. task_id t \<noteq> fromId \<and> task_id t \<noteq> toId"
  shows "reorder_spec fromId toId (ps @ a # b # rs) = ps @ a # b # rs"
proof -
  have f: "findIndex (has_id fromId) (ps @ a # b # rs) = int (length ps)"
    using a ps by (intro findIndex_first) (auto simp: has_id_def)
  have "findIndex (has_id toId) ((ps @ [a]) @ b # rs) = int (length (ps @ [a]))"
    using a b ne ps by (intro findIndex_first) (auto simp: has_id_def)
  then have t: "\<not> findIndex (has_id toId) (ps @ a # b # rs) < 0"
    by simp
  have t': "findIndex (has_id toId) (ps @ b # rs) = int (length ps)"
    using b ps by (intro findIndex_first) (auto simp: has_id_def)
  show ?thesis
    unfolding reorder_spec_def f Let_def
    using t t' ne by (simp add: splice_out_middle splice_in_middle)
qed

theorem reorder_post_removal_counterexample:
  "findIndex (has_id ''a'') (reorderTasks ''a'' ''b'' ex_ab) = 1 \<and>
   findIndex (has_id ''b'') (splice_out (nat (findIndex (has_id ''a'') ex_ab)) ex_ab) = 0 \<and>
   reorderTasks ''a'' ''b'' ex_ab = [example_task ''b'', example_task ''a''] \<and>
   reorder_spec ''a'' ''b'' ex_ab = [example_task ''a'', example_task ''b'']"
  by (simp add: reorderTasks_def reorder_spec_def ex_ab_def example_task_def has_id_def
      splice_in_def splice_out_def)

lemma reorderTasks_swap:
  assumes x: "task_id x = a" and y: "task_id y = b" and ne: "a \<noteq> b"
    and o: "\<forall>t\<in>set (xs @ ys). task_id t \<noteq> a \<and> task_id t \<noteq> b"
  shows "reorderTasks a b (xs @ x # y # ys) = xs @ y # x # ys"
    and "reorderTasks a b (xs @ y # x # ys) = xs @ x # y # ys"
proof -
  have "reorderTasks a b (xs @ x # [] @ y # ys) = xs @ [] @ y # x # ys"
    using o by (intro reorderTasks_forward [OF x y ne]) auto
  then show "reorderTasks a b (xs @ x # y # ys) = xs @ y # x # ys" by simp
  have "reorderTasks a b (xs @ y # [] @ x # ys) = xs @ x # y # [] @ ys"
    using o by (intro reorderTasks_backward [OF x y ne]) auto
  then show "reorderTasks a b (xs @ y # x # ys) = xs @ x # y # ys" by simp
qed

lemma reorderTasks_alternates:
  assumes x: "task_id x = a" and y: "task_id y = b" and ne: "a \<noteq> b"
    and o: "\<forall>t\<in>set (xs @ ys). task_id t \<noteq> a \<and> task_id t \<noteq> b"
  shows "reorderTasks a b ts = xs @ y # x # ys \<Longrightarrow>
           (reorderTasks a b ^^ Suc n) ts = (if even n then xs @ y # x # ys else xs @ x # y # ys)"
    and "reorderTasks a b ts = xs @ x # y # ys \<Longrightarrow>
           (reorderTasks a b ^^ Suc n) ts = (if even n then xs @ x # y # ys else xs @ y # x # ys)"
proof -
  note sw = reorderTasks_swap [OF x y ne o]
  show "(reorderTasks a b ^^ Suc n) ts = (if even n then xs @ y # x # ys else xs @ x # y # ys)"
    if "reorderTasks a b ts = xs @ y # x # ys"
  proof (induction n)
    case 0
    show ?case using that by simp
  next
    case (Suc n)
    have "(reorderTasks a b ^^ Suc (Suc n)) ts = reorderTasks a b ((reorderTasks a b ^^ Suc n) ts)"
      by simp
    also have "\<dots> = (if even (Suc n) then xs @ y # x # ys else xs @ x # y # ys)"
      unfolding Suc.IH using sw by simp
    finally show ?case .
  qed
  show "(reorderTasks a b ^^ Suc n) ts = (if even n then xs @ x # y # ys else xs @ y # x # ys)"
    if "reorderTasks a b ts = xs @ x # y # ys"
  proof (induction n)
    case 0
    show ?case using that by simp
  next
    case (Suc n)
    have "(reorderTasks a b ^^ Suc (Suc n)) ts = reorderTasks a b ((reorderTasks a b ^^ Suc n) ts)"
      by simp
    also have "\<dots> = (if even (Suc n) then xs @ x # y # ys else xs @ y # x # ys)"
      unfolding Suc.IH using sw by simp
    finally show ?case .
  qed
qed

lemma filter_others:
  "\<forall>t\<in>set zs. task_id t \<noteq> a \<and> task_id t \<noteq> b \<Longrightarrow>
   filter (\<lambda>t. task_id t \<noteq> a \<and> task_id t \<noteq> b) zs = zs"
  by (induction zs) auto

lemma reorderTasks_neighbours:
  assumes d: "distinct (map task_id ts)" and ne: "a \<noteq> b"
    and f: "a \<in> task_id ` set ts" and t: "b \<in> task_id ` set ts"
  shows "\<exists>xs x y ys. task_id x = a \<and> task_id y = b \<and>
           xs @ ys = filter (\<lambda>t. task_id t \<noteq> a \<and> task_id t \<noteq> b) ts \<and>
           (findIndex (has_id a) ts < findIndex (has_id b) ts \<longrightarrow>
              (\<forall>n. (reorderTasks a b ^^ Suc n) ts =
                 (if even n then xs @ y # x # ys else xs @ x # y # ys))) \<and>
           (findIndex (has_id b) ts < findIndex (has_id a) ts \<longrightarrow>
              (\<forall>n. (reorderTasks a b ^^ Suc n) ts =
                 (if even n then xs @ x # y # ys else xs @ y # x # ys)))"
  using two_ids_split [OF d ne f t]
proof (elim disjE exE conjE)
  fix ps x ms y rs
  assume ts: "ts = ps @ x # ms @ y # rs" and x: "task_id x = a" and y: "task_id y = b"
    and o: "\<forall>t\<in>set (ps @ ms @ rs). task_id t \<noteq> a \<and> task_id t \<noteq> b"
  have o': "\<forall>t\<in>set ((ps @ ms) @ rs). task_id t \<noteq> a \<and> task_id t \<noteq> b"
    using o by simp
  have 1: "reorderTasks a b ts = (ps @ ms) @ y # x # rs"
    unfolding ts using reorderTasks_forward [OF x y ne, of ps ms rs] o by simp
  have fa: "findIndex (has_id a) ts = int (length ps)"
    unfolding ts using x o by (intro findIndex_first) (auto simp: has_id_def)
  have "findIndex (has_id b) ((ps @ x # ms) @ y # rs) = int (length (ps @ x # ms))"
    using x y ne o by (intro findIndex_first) (auto simp: has_id_def)
  then have fb: "findIndex (has_id b) ts = int (length ps + length ms + 1)"
    by (simp add: ts)
  have fl: "(ps @ ms) @ rs = filter (\<lambda>t. task_id t \<noteq> a \<and> task_id t \<noteq> b) ts"
    unfolding ts using x y filter_others [OF o] filter_others [of ps a b] by simp
  have alt: "\<forall>n. (reorderTasks a b ^^ Suc n) ts =
      (if even n then (ps @ ms) @ y # x # rs else (ps @ ms) @ x # y # rs)"
    using reorderTasks_alternates(1) [OF x y ne o' 1] by blast
  show ?thesis
    using x y fl alt fa fb
    by (intro exI [of _ "ps @ ms"] exI [of _ x] exI [of _ y] exI [of _ rs]) simp
next
  fix ps x ms y rs
  assume ts: "ts = ps @ y # ms @ x # rs" and x: "task_id x = a" and y: "task_id y = b"
    and o: "\<forall>t\<in>set (ps @ ms @ rs). task_id t \<noteq> a \<and> task_id t \<noteq> b"
  have o': "\<forall>t\<in>set (ps @ (ms @ rs)). task_id t \<noteq> a \<and> task_id t \<noteq> b"
    using o by simp
  have 1: "reorderTasks a b ts = ps @ x # y # (ms @ rs)"
    unfolding ts using reorderTasks_backward [OF x y ne, of ps ms rs] o by simp
  have fb: "findIndex (has_id b) ts = int (length ps)"
    unfolding ts using y o by (intro findIndex_first) (auto simp: has_id_def)
  have "findIndex (has_id a) ((ps @ y # ms) @ x # rs) = int (length (ps @ y # ms))"
    using x y ne o by (intro findIndex_first) (auto simp: has_id_def)
  then have fa: "findIndex (has_id a) ts = int (length ps + length ms + 1)"
    by (simp add: ts)
  have fl: "ps @ (ms @ rs) = filter (\<lambda>t. task_id t \<noteq> a \<and> task_id t \<noteq> b) ts"
    unfolding ts using x y filter_others [OF o] by simp
  have alt: "\<forall>n. (reorderTasks a b ^^ Suc n) ts =
      (if even n then ps @ x # y # (ms @ rs) else ps @ y # x # (ms @ rs))"
    using reorderTasks_alternates(2) [OF x y ne o' 1] by blast
  show ?thesis
    using x y fl alt fa fb
    by (intro exI [of _ ps] exI [of _ x] exI [of _ y] exI [of _ "ms @ rs"]) simp
qed

text \<open>
  Claim C5, amended. On a list with pairwise distinct ids, a second \<open>reorderTasks a b\<close>
  gives the order of the first one exactly when \<open>a = b\<close> or one of the ids is absent,
  and then each call leaves the list as it is. When the ids differ and both are
  present, the first call makes the two tasks neighbours, with the other tasks in their
  order around them (the task of \<open>a\<close> behind the task of \<open>b\<close> when it came first,
  before it otherwise), and every further call swaps the two; so three calls give the
  order of one call.
\<close>

theorem reorder_twice:
  assumes d: "distinct (map task_id ts)"
  shows "((reorderTasks a b (reorderTasks a b ts) = reorderTasks a b ts) =
          (a = b \<or> a \<notin> task_id ` set ts \<or> b \<notin> task_id ` set ts)) \<and>
         (a = b \<or> a \<notin> task_id ` set ts \<or> b \<notin> task_id ` set ts \<longrightarrow> reorderTasks a b ts = ts) \<and>
         (a \<noteq> b \<and> a \<in> task_id ` set ts \<and> b \<in> task_id ` set ts \<longrightarrow>
            (\<exists>xs x y ys. task_id x = a \<and> task_id y = b \<and>
               xs @ ys = filter (\<lambda>t. task_id t \<noteq> a \<and> task_id t \<noteq> b) ts \<and>
               (findIndex (has_id a) ts < findIndex (has_id b) ts \<longrightarrow>
                  (\<forall>n. (reorderTasks a b ^^ Suc n) ts =
                     (if even n then xs @ y # x # ys else xs @ x # y # ys))) \<and>
               (findIndex (has_id b) ts < findIndex (has_id a) ts \<longrightarrow>
                  (\<forall>n. (reorderTasks a b ^^ Suc n) ts =
                     (if even n then xs @ x # y # ys else xs @ y # x # ys))))) \<and>
         reorderTasks a b (reorderTasks a b (reorderTasks a b ts)) = reorderTasks a b ts"
proof (cases "a = b \<or> a \<notin> task_id ` set ts \<or> b \<notin> task_id ` set ts")
  case True
  then have i: "reorderTasks a b ts = ts"
    using reorderTasks_same [of a ts] reorderTasks_absent [of a ts b] by auto
  from True have v: "\<not> (a \<noteq> b \<and> a \<in> task_id ` set ts \<and> b \<in> task_id ` set ts)"
    by blast
  from True v show ?thesis
    by (simp only: i simp_thms)
next
  case False
  then have ne: "a \<noteq> b" and f: "a \<in> task_id ` set ts" and t: "b \<in> task_id ` set ts"
    by auto
  from reorder_twice_swaps [OF d ne f t]
  obtain xs x y ys where xy: "task_id x = a" "task_id y = b"
    and three: "reorderTasks a b (reorderTasks a b (reorderTasks a b ts)) = reorderTasks a b ts"
    and sw: "(reorderTasks a b ts = xs @ y # x # ys \<and>
             reorderTasks a b (reorderTasks a b ts) = xs @ x # y # ys) \<or>
            (reorderTasks a b ts = xs @ x # y # ys \<and>
             reorderTasks a b (reorderTasks a b ts) = xs @ y # x # ys)"
    by blast
  from xy ne have "x \<noteq> y" by auto
  with sw have two: "reorderTasks a b (reorderTasks a b ts) \<noteq> reorderTasks a b ts"
    by auto
  from False two three reorderTasks_neighbours [OF d ne f t] show ?thesis
    by simp
qed

theorem reorder_twice_witness:
  "reorderTasks ''c'' ''a'' ex_abc = [example_task ''c'', example_task ''a'', example_task ''b''] \<and>
   reorderTasks ''c'' ''a'' (reorderTasks ''c'' ''a'' ex_abc) =
     [example_task ''a'', example_task ''c'', example_task ''b''] \<and>
   reorderTasks ''c'' ''a'' (reorderTasks ''c'' ''a'' (reorderTasks ''c'' ''a'' ex_abc)) =
     reorderTasks ''c'' ''a'' ex_abc \<and>
   reorderTasks ''c'' ''c'' ex_abc = ex_abc \<and> reorderTasks ''c'' ''z'' ex_abc = ex_abc"
proof -
  have d: "distinct (map task_id ex_abc)"
    by (simp add: ex_abc_def example_task_def)
  have m: "''c'' \<noteq> ''a'' \<and> ''c'' \<in> task_id ` set ex_abc \<and> ''a'' \<in> task_id ` set ex_abc"
    by (simp add: ex_abc_def example_task_def)
  have i: "findIndex (has_id ''a'') ex_abc < findIndex (has_id ''c'') ex_abc"
    by (simp add: ex_abc_def example_task_def has_id_def)
  have z: "''z'' \<notin> task_id ` set ex_abc"
    by (simp add: ex_abc_def example_task_def)
  have fl: "filter (\<lambda>t. task_id t \<noteq> ''c'' \<and> task_id t \<noteq> ''a'') ex_abc = [example_task ''b'']"
    by (simp add: ex_abc_def example_task_def)
  from reorder_twice [OF d, of "''c''" "''a''"] m i obtain xs x y ys
    where x: "task_id x = ''c''" and y: "task_id y = ''a''"
      and s: "xs @ ys = filter (\<lambda>t. task_id t \<noteq> ''c'' \<and> task_id t \<noteq> ''a'') ex_abc"
      and alt: "\<forall>n. (reorderTasks ''c'' ''a'' ^^ Suc n) ex_abc =
                 (if even n then xs @ x # y # ys else xs @ y # x # ys)"
      and three: "reorderTasks ''c'' ''a'' (reorderTasks ''c'' ''a'' (reorderTasks ''c'' ''a'' ex_abc)) =
          reorderTasks ''c'' ''a'' ex_abc"
    by auto
  have r1: "reorderTasks ''c'' ''a'' ex_abc = [example_task ''c'', example_task ''a'', example_task ''b'']"
    by (simp add: reorderTasks_def ex_abc_def example_task_def has_id_def splice_in_def splice_out_def)
  from alt have a0: "reorderTasks ''c'' ''a'' ex_abc = xs @ x # y # ys"
    and a1: "reorderTasks ''c'' ''a'' (reorderTasks ''c'' ''a'' ex_abc) = xs @ y # x # ys"
    using spec [OF alt, of 0] spec [OF alt, of 1] by simp_all
  from a0 r1 x y have "xs = [] \<and> x = example_task ''c'' \<and> y = example_task ''a'' \<and> ys = [example_task ''b'']"
    by (cases xs) (auto simp: example_task_def Cons_eq_append_conv)
  with a1 have r2: "reorderTasks ''c'' ''a'' (reorderTasks ''c'' ''a'' ex_abc) =
     [example_task ''a'', example_task ''c'', example_task ''b'']"
    by simp
  from reorder_twice [OF d, of "''c''" "''c''"] have same: "reorderTasks ''c'' ''c'' ex_abc = ex_abc"
    by simp
  from reorder_twice [OF d, of "''c''" "''z''"] z have absent: "reorderTasks ''c'' ''z'' ex_abc = ex_abc"
    by simp
  from r1 r2 three same absent show ?thesis by simp
qed

text \<open>
  The claim as stated fails: on the tasks a, b the first call gives b, a and the second
  call gives a, b again.
\<close>

theorem reorder_twice_counterexample:
  "reorderTasks ''a'' ''b'' ex_ab = [example_task ''b'', example_task ''a''] \<and>
   reorderTasks ''a'' ''b'' (reorderTasks ''a'' ''b'' ex_ab) = [example_task ''a'', example_task ''b'']"
  by (simp add: reorderTasks_def ex_ab_def example_task_def has_id_def splice_in_def splice_out_def)

section \<open>Claims about derived completion\<close>

lemma state_of_Inl: "state_of (Inl (err, s)) = s"
  by (simp add: state_of_def)

lemma state_of_Inr: "state_of (Inr s) = s"
  by (simp add: state_of_def)

lemma length_filter_all: "(length (filter P xs) = length xs) = list_all P xs"
proof (induction xs)
  case Nil
  then show ?case by simp
next
  case (Cons x xs)
  have "length (filter P xs) \<le> length xs" by (rule length_filter_le)
  then have "length (filter P xs) \<noteq> Suc (length xs)" by arith
  with Cons show ?case by auto
qed

lemma updateTaskProgress_derived: "derived_completion (updateTaskProgress task)"
  by (auto simp: derived_completion_def updateTaskProgress_def Let_def length_filter_all)

lemma updateTaskProgress_subtasks: "subtasks (updateTaskProgress task) = subtasks task"
  by (simp add: updateTaskProgress_def Let_def)

lemma updateTaskProgress_idem: "updateTaskProgress (updateTaskProgress task) = updateTaskProgress task"
  by (simp add: updateTaskProgress_def Let_def)

lemma updateTaskProgress_fixed: "derived_completion task \<Longrightarrow> updateTaskProgress task = task"
  by (auto simp: derived_completion_def updateTaskProgress_def Let_def length_filter_all)

lemma render_task_derived: "derived_completion task \<Longrightarrow> derived_completion (render_task b task)"
  by (simp add: render_task_def updateTaskProgress_derived)

text \<open>
  The three steps that end the handlers of a subtask row, \<^verbatim>\<open>save(); renderSubtasks();
  updateTaskProgress();\<close>, on a task as the handler has changed it: a write that throws
  ends them at once; so does a row without delete button; otherwise the flag is
  recomputed, also when a later write throws.
\<close>

lemma save_throws_ends:
  "save_throws p task1 \<Longrightarrow>
   and_then (save_task p task1) f = Inl (QuotaExceededError, task1)"
  by (simp add: and_then_def save_task_def)

lemma row_fails_ends:
  "\<not> save_throws p task1 \<Longrightarrow> \<not> list_all (\<lambda>s. row_builds p (sub_text s)) (subtasks task1) \<Longrightarrow>
   and_then (save_task p task1) (renderSubtasks p) = Inl (TypeError, task1)"
  by (simp add: and_then_def save_task_def renderSubtasks_def)

lemma renderSubtasks_state:
  "list_all (\<lambda>s. row_builds p (sub_text s)) (subtasks task1) \<Longrightarrow>
   state_of (renderSubtasks p task1) = updateTaskProgress task1"
  by (simp add: renderSubtasks_def updateTaskProgress_save_def save_task_def state_of_def)

lemma saved_rendered_state:
  "\<not> save_throws p task1 \<Longrightarrow> list_all (\<lambda>s. row_builds p (sub_text s)) (subtasks task1) \<Longrightarrow>
   state_of (and_then (save_task p task1) (renderSubtasks p)) = updateTaskProgress task1"
  by (simp add: and_then_def save_task_def renderSubtasks_state)

lemma saved_rendered_progress_state:
  "\<not> save_throws p task1 \<Longrightarrow> list_all (\<lambda>s. row_builds p (sub_text s)) (subtasks task1) \<Longrightarrow>
   state_of (and_then (and_then (save_task p task1) (renderSubtasks p)) (updateTaskProgress_save p)) =
     updateTaskProgress task1"
  by (simp add: and_then_def save_task_def renderSubtasks_def updateTaskProgress_save_def
      state_of_def updateTaskProgress_idem)

text \<open>
  The slip in \<^verbatim>\<open>renderSubtasks\<close>: a subtask text that swallows the delete button of
  its row ends the handler between the write of the subtasks and the recomputation.
\<close>

lemma add_sub_click_row_fails:
  assumes "trim v \<noteq> []"
    and "\<not> save_throws p (task\<lparr>subtasks := subtasks task @ [\<lparr>sub_text = trim v, sub_done = False\<rparr>]\<rparr>)"
    and "\<not> row_builds p (trim v)"
  shows "add_sub_click p v task =
     Inl (TypeError, task\<lparr>subtasks := subtasks task @ [\<lparr>sub_text = trim v, sub_done = False\<rparr>]\<rparr>)"
  using assms by (simp add: add_sub_click_def Let_def row_fails_ends)

lemma check_click_task1_derived:
  "derived_completion
     (if subtasks task \<noteq> [] then
        task\<lparr>subtasks := map (\<lambda>s. s\<lparr>sub_done := \<not> list_all sub_done (subtasks task)\<rparr>) (subtasks task),
             completed := \<not> list_all sub_done (subtasks task)\<rparr>
      else task\<lparr>completed := \<not> completed task\<rparr>)"
  by (cases "subtasks task") (auto simp: derived_completion_def list_all_iff)

lemma check_click_state:
  "state_of (check_click p rebuilt render_returns task) =
     (if subtasks task \<noteq> [] then
        task\<lparr>subtasks := map (\<lambda>s. s\<lparr>sub_done := \<not> list_all sub_done (subtasks task)\<rparr>) (subtasks task),
             completed := \<not> list_all sub_done (subtasks task)\<rparr>
      else task\<lparr>completed := \<not> completed task\<rparr>)"
proof -
  define t1 where "t1 = (if subtasks task \<noteq> [] then
        task\<lparr>subtasks := map (\<lambda>s. s\<lparr>sub_done := \<not> list_all sub_done (subtasks task)\<rparr>) (subtasks task),
             completed := \<not> list_all sub_done (subtasks task)\<rparr>
      else task\<lparr>completed := \<not> completed task\<rparr>)"
  have "derived_completion t1"
    unfolding t1_def by (rule check_click_task1_derived)
  then have u: "updateTaskProgress t1 = t1"
    by (rule updateTaskProgress_fixed)
  have c: "check_click p rebuilt render_returns task =
      and_then (and_then (save_task p t1) (renderSubtasks p))
        (\<lambda>task2. if render_returns then Inr (render_task rebuilt task2)
                  else Inl (TypeError, render_task rebuilt task2))"
    by (simp add: check_click_def Let_def t1_def)
  have "state_of (and_then (and_then (save_task p t1) (renderSubtasks p))
        (\<lambda>task2. if render_returns then Inr (render_task rebuilt task2)
                  else Inl (TypeError, render_task rebuilt task2))) = t1"
    by (simp add: and_then_def save_task_def renderSubtasks_def updateTaskProgress_save_def
        state_of_def render_task_def u)
  with c show ?thesis
    unfolding t1_def by simp
qed

text \<open>
  Claim C2, amended. A handler that changes the subtasks of a task (toggling a subtask,
  deleting a subtask, adding a subtask with a text that is not blank) first writes the
  change to the task and then calls \<^verbatim>\<open>save\<close>. When that write to the storage throws,
  the handler ends there: the task keeps the change and \<open>completed\<close> is not recomputed.
  When the write succeeds and every row of the subtask list builds, the handler ends
  with the task as \<open>updateTaskProgress\<close> leaves it: the subtasks are as the handler
  changed them, and if they are not empty then \<open>completed\<close> holds exactly when every
  subtask is done, whatever the task was before. Adding a blank text changes nothing.
  Toggling the task sets all subtasks and \<open>completed\<close> to the same value before it
  calls \<^verbatim>\<open>save\<close>, so the invariant holds after it in every case.
\<close>

theorem subtask_mutations_recompute_completed:
  "(let task1 = (if idx < length (subtasks task)
                 then task\<lparr>subtasks :=
                        (subtasks task)[idx := (subtasks task ! idx)\<lparr>sub_done := \<not> sub_done (subtasks task ! idx)\<rparr>]\<rparr>
                 else task);
        r = subcheck_click p idx task
    in (save_throws p task1 \<longrightarrow> r = Inl (QuotaExceededError, task1)) \<and>
       (\<not> save_throws p task1 \<and> list_all (\<lambda>s. row_builds p (sub_text s)) (subtasks task1) \<longrightarrow>
          state_of r = updateTaskProgress task1 \<and> derived_completion (state_of r) \<and>
          subtasks (state_of r) = subtasks task1)) \<and>
   (let task1 = task\<lparr>subtasks := splice_out idx (subtasks task)\<rparr>;
        r = delete_sub_click p idx task
    in (save_throws p task1 \<longrightarrow> r = Inl (QuotaExceededError, task1)) \<and>
       (\<not> save_throws p task1 \<and> list_all (\<lambda>s. row_builds p (sub_text s)) (subtasks task1) \<longrightarrow>
          state_of r = updateTaskProgress task1 \<and> derived_completion (state_of r) \<and>
          subtasks (state_of r) = subtasks task1)) \<and>
   (trim v \<noteq> [] \<longrightarrow>
      (let task1 = task\<lparr>subtasks := subtasks task @ [\<lparr>sub_text = trim v, sub_done = False\<rparr>]\<rparr>;
           r = add_sub_click p v task
       in (save_throws p task1 \<longrightarrow> r = Inl (QuotaExceededError, task1)) \<and>
          (\<not> save_throws p task1 \<and> list_all (\<lambda>s. row_builds p (sub_text s)) (subtasks task1) \<longrightarrow>
             state_of r = updateTaskProgress task1 \<and> derived_completion (state_of r) \<and>
             subtasks (state_of r) = subtasks task1))) \<and>
   (trim v = [] \<longrightarrow> add_sub_click p v task = Inr task) \<and>
   (let r = check_click p rebuilt render_returns task
    in derived_completion (state_of r) \<and>
       subtasks (state_of r) =
         map (\<lambda>s. s\<lparr>sub_done := \<not> list_all sub_done (subtasks task)\<rparr>) (subtasks task) \<and>
       completed (state_of r) =
         (if subtasks task \<noteq> [] then \<not> list_all sub_done (subtasks task) else \<not> completed task))"
proof -
  have good: "state_of r = updateTaskProgress task1 \<and> derived_completion (state_of r) \<and>
      subtasks (state_of r) = subtasks task1"
    if "state_of r = updateTaskProgress task1" for r task1
    using that by (simp add: updateTaskProgress_derived updateTaskProgress_subtasks)
  have 1: "let task1 = (if idx < length (subtasks task)
                 then task\<lparr>subtasks :=
                        (subtasks task)[idx := (subtasks task ! idx)\<lparr>sub_done := \<not> sub_done (subtasks task ! idx)\<rparr>]\<rparr>
                 else task);
        r = subcheck_click p idx task
    in (save_throws p task1 \<longrightarrow> r = Inl (QuotaExceededError, task1)) \<and>
       (\<not> save_throws p task1 \<and> list_all (\<lambda>s. row_builds p (sub_text s)) (subtasks task1) \<longrightarrow>
          state_of r = updateTaskProgress task1 \<and> derived_completion (state_of r) \<and>
          subtasks (state_of r) = subtasks task1)"
  proof -
    define task1 where "task1 = (if idx < length (subtasks task)
                 then task\<lparr>subtasks :=
                        (subtasks task)[idx := (subtasks task ! idx)\<lparr>sub_done := \<not> sub_done (subtasks task ! idx)\<rparr>]\<rparr>
                 else task)"
    have r: "subcheck_click p idx task =
        and_then (and_then (save_task p task1) (renderSubtasks p)) (updateTaskProgress_save p)"
      by (simp add: subcheck_click_def Let_def task1_def)
    have a: "subcheck_click p idx task = Inl (QuotaExceededError, task1)" if "save_throws p task1"
      unfolding r using that by (simp add: save_task_def and_then_def)
    have b: "state_of (subcheck_click p idx task) = updateTaskProgress task1"
      if "\<not> save_throws p task1" "list_all (\<lambda>s. row_builds p (sub_text s)) (subtasks task1)"
      unfolding r using that by (rule saved_rendered_progress_state)
    from a good [OF b] show ?thesis
      unfolding Let_def task1_def [symmetric] by blast
  qed
  have 2: "let task1 = task\<lparr>subtasks := splice_out idx (subtasks task)\<rparr>;
        r = delete_sub_click p idx task
    in (save_throws p task1 \<longrightarrow> r = Inl (QuotaExceededError, task1)) \<and>
       (\<not> save_throws p task1 \<and> list_all (\<lambda>s. row_builds p (sub_text s)) (subtasks task1) \<longrightarrow>
          state_of r = updateTaskProgress task1 \<and> derived_completion (state_of r) \<and>
          subtasks (state_of r) = subtasks task1)"
  proof -
    define task1 where "task1 = task\<lparr>subtasks := splice_out idx (subtasks task)\<rparr>"
    have r: "delete_sub_click p idx task =
        and_then (and_then (save_task p task1) (renderSubtasks p)) (updateTaskProgress_save p)"
      by (simp add: delete_sub_click_def Let_def task1_def)
    have a: "delete_sub_click p idx task = Inl (QuotaExceededError, task1)" if "save_throws p task1"
      unfolding r using that by (simp add: save_task_def and_then_def)
    have b: "state_of (delete_sub_click p idx task) = updateTaskProgress task1"
      if "\<not> save_throws p task1" "list_all (\<lambda>s. row_builds p (sub_text s)) (subtasks task1)"
      unfolding r using that by (rule saved_rendered_progress_state)
    from a good [OF b] show ?thesis
      unfolding Let_def task1_def [symmetric] by blast
  qed
  have 3: "let task1 = task\<lparr>subtasks := subtasks task @ [\<lparr>sub_text = trim v, sub_done = False\<rparr>]\<rparr>;
           r = add_sub_click p v task
       in (save_throws p task1 \<longrightarrow> r = Inl (QuotaExceededError, task1)) \<and>
          (\<not> save_throws p task1 \<and> list_all (\<lambda>s. row_builds p (sub_text s)) (subtasks task1) \<longrightarrow>
             state_of r = updateTaskProgress task1 \<and> derived_completion (state_of r) \<and>
             subtasks (state_of r) = subtasks task1)"
    if v: "trim v \<noteq> []"
  proof -
    define task1 where "task1 = task\<lparr>subtasks := subtasks task @ [\<lparr>sub_text = trim v, sub_done = False\<rparr>]\<rparr>"
    have r: "add_sub_click p v task = and_then (save_task p task1) (renderSubtasks p)"
      using v by (simp add: add_sub_click_def Let_def task1_def)
    have a: "add_sub_click p v task = Inl (QuotaExceededError, task1)" if "save_throws p task1"
      unfolding r using that by (rule save_throws_ends)
    have b: "state_of (add_sub_click p v task) = updateTaskProgress task1"
      if "\<not> save_throws p task1" "list_all (\<lambda>s. row_builds p (sub_text s)) (subtasks task1)"
      unfolding r using that by (rule saved_rendered_state)
    from a good [OF b] show ?thesis
      unfolding Let_def task1_def [symmetric] by blast
  qed
  have 4: "add_sub_click p v task = Inr task" if "trim v = []"
    using that by (simp add: add_sub_click_def)
  have 5: "let r = check_click p rebuilt render_returns task
    in derived_completion (state_of r) \<and>
       subtasks (state_of r) =
         map (\<lambda>s. s\<lparr>sub_done := \<not> list_all sub_done (subtasks task)\<rparr>) (subtasks task) \<and>
       completed (state_of r) =
         (if subtasks task \<noteq> [] then \<not> list_all sub_done (subtasks task) else \<not> completed task)"
    unfolding Let_def check_click_state
    using check_click_task1_derived [of task] by simp
  from 1 2 3 4 5 show ?thesis by blast
qed

theorem subtask_mutations_recompute_completed_witness:
  "completed (state_of (subcheck_click ex_page 1 ex_sub_task)) \<and>
   \<not> completed (state_of (delete_sub_click ex_page 0 ex_sub_task)) \<and>
   \<not> completed (state_of (add_sub_click ex_page ''Print'' ex_sub_task)) \<and>
   completed (state_of (check_click ex_page True True ex_sub_task)) \<and>
   add_sub_click ex_page_full ''Print'' ex_done_task =
     Inl (QuotaExceededError,
          ex_done_task\<lparr>subtasks := [\<lparr>sub_text = ''Draft'', sub_done = True\<rparr>,
                                    \<lparr>sub_text = ''Print'', sub_done = False\<rparr>]\<rparr>)"
proof -
  have t: "trim ''Print'' = ''Print''"
    by (simp add: trim_def is_space_def)
  have s: "subtasks ex_sub_task =
      [\<lparr>sub_text = ''Draft'', sub_done = True\<rparr>, \<lparr>sub_text = ''Review'', sub_done = False\<rparr>]"
    by (simp add: ex_sub_task_def)
  have p: "save_throws ex_page = (\<lambda>t. False)" "row_builds ex_page = (\<lambda>s. s \<noteq> ''<!--'')"
    by (simp_all add: ex_page_def)
  have a: "state_of (subcheck_click ex_page 1 ex_sub_task) =
      updateTaskProgress (ex_sub_task\<lparr>subtasks :=
        [\<lparr>sub_text = ''Draft'', sub_done = True\<rparr>, \<lparr>sub_text = ''Review'', sub_done = True\<rparr>]\<rparr>)"
    and b: "state_of (add_sub_click ex_page ''Print'' ex_sub_task) =
      updateTaskProgress (ex_sub_task\<lparr>subtasks :=
        [\<lparr>sub_text = ''Draft'', sub_done = True\<rparr>, \<lparr>sub_text = ''Review'', sub_done = False\<rparr>,
         \<lparr>sub_text = ''Print'', sub_done = False\<rparr>]\<rparr>)"
    and c: "completed (state_of (check_click ex_page True True ex_sub_task))"
    using subtask_mutations_recompute_completed [of 1 ex_sub_task ex_page "''Print''" True True]
    by (simp_all add: Let_def t s p)
  have d: "state_of (delete_sub_click ex_page 0 ex_sub_task) =
      updateTaskProgress (ex_sub_task\<lparr>subtasks := [\<lparr>sub_text = ''Review'', sub_done = False\<rparr>]\<rparr>)"
    using subtask_mutations_recompute_completed [of 0 ex_sub_task ex_page "''Print''" True True]
    by (simp add: Let_def t s p splice_out_def)
  have "completed (state_of (subcheck_click ex_page 1 ex_sub_task))"
    and "\<not> completed (state_of (add_sub_click ex_page ''Print'' ex_sub_task))"
    and "\<not> completed (state_of (delete_sub_click ex_page 0 ex_sub_task))"
    unfolding a b d by (simp_all add: updateTaskProgress_def)
  moreover note c
  moreover
  from subtask_mutations_recompute_completed [of 0 ex_done_task ex_page_full "''Print''" True True]
  have "add_sub_click ex_page_full ''Print'' ex_done_task =
     Inl (QuotaExceededError,
          ex_done_task\<lparr>subtasks := [\<lparr>sub_text = ''Draft'', sub_done = True\<rparr>,
                                    \<lparr>sub_text = ''Print'', sub_done = False\<rparr>]\<rparr>)"
    by (simp add: Let_def t ex_page_full_def ex_page_def ex_done_task_def)
  ultimately show ?thesis by blast
qed

text \<open>
  The claim as stated fails when the storage is full: the task has one subtask, done,
  and is completed; a second subtask is added; the write throws, and the task is left
  completed with a subtask that is not done.
\<close>

theorem subtask_mutation_storage_full_counterexample:
  "derived_completion ex_done_task \<and>
   subtasks (state_of (add_sub_click ex_page_full ''Print'' ex_done_task)) =
     [\<lparr>sub_text = ''Draft'', sub_done = True\<rparr>, \<lparr>sub_text = ''Print'', sub_done = False\<rparr>] \<and>
   completed (state_of (add_sub_click ex_page_full ''Print'' ex_done_task)) \<and>
   \<not> derived_completion (state_of (add_sub_click ex_page_full ''Print'' ex_done_task))"
  by (simp add: add_sub_click_def Let_def trim_def is_space_def and_then_def save_task_def
      state_of_def ex_page_full_def ex_page_def ex_done_task_def ex_sub_task_def
      derived_completion_def)

section \<open>Claims about reminders\<close>

lemma remind_task_frame:
  "state_of (remind_task e task) = task\<lparr>reminded := reminded (state_of (remind_task e task))\<rparr>"
  by (simp add: remind_task_def Let_def state_of_def split: option.splits)

lemma remind_task_skip:
  "due task = None \<or> due task = Some [] \<or> reminded task \<Longrightarrow> remind_task e task = Inr task"
  by (auto simp: remind_task_def Let_def split: option.splits)

lemma notification_fails_skip:
  "due task = None \<or> due task = Some [] \<or> reminded task \<Longrightarrow> \<not> notification_fails e task"
  by (simp add: notification_fails_def remind_task_skip)

lemma remind_task_cases:
  "remind_task e task = Inl (TypeError, task) \<or> remind_task e task = Inr task \<or>
   remind_task e task = Inr (task\<lparr>reminded := True\<rparr>)"
  by (simp add: remind_task_def Let_def split: option.splits)

lemma notification_fails_unchanged:
  "notification_fails e task \<Longrightarrow> remind_task e task = Inl (TypeError, task)"
  using remind_task_cases [of e task] by (auto simp: notification_fails_def)

lemma notification_fails_Fin:
  assumes "due task = Some d" "d \<noteq> []" "\<not> reminded task" "date_ms e d = Fin x"
  shows "notification_fails e task =
         (x - 1800000 \<le> of_int (clock e) \<and> x > of_int (clock e) \<and>
          permission_granted e \<and> \<not> completed task \<and> notification_throws e)"
  using assms by (auto simp: notification_fails_def remind_task_def Let_def js_gt_def)

lemma remind_task_Fin:
  assumes "due task = Some d" "d \<noteq> []" "\<not> reminded task" "date_ms e d = Fin x"
    and "\<not> notification_fails e task"
  shows "reminded (state_of (remind_task e task)) =
         ((x - 1800000 > of_int (clock e) \<and> x - 1800000 - of_int (clock e) < 86400000) \<or>
          (x - 1800000 \<le> of_int (clock e) \<and> x > of_int (clock e)))"
  using assms
  by (auto simp: notification_fails_def remind_task_def Let_def js_gt_def state_of_def)

lemma remind_task_NaN:
  assumes "due task = Some d" "d \<noteq> []" "\<not> reminded task" "date_ms e d = NaN"
  shows "remind_task e task = Inr task"
  using assms by (simp add: remind_task_def Let_def js_gt_def)

lemma forEach_remind_Cons:
  "state_of (forEach_remind e (task # rest)) =
     (if notification_fails e task then task # rest
      else state_of (remind_task e task) # state_of (forEach_remind e rest))"
proof (cases "notification_fails e task")
  case True
  then show ?thesis
    by (simp add: notification_fails_unchanged state_of_def)
next
  case False
  then obtain task' where "remind_task e task = Inr task'"
    by (cases "remind_task e task") (simp_all add: notification_fails_def)
  with False show ?thesis
    by (cases "forEach_remind e rest") (auto simp: state_of_def)
qed

lemma length_forEach_remind: "length (state_of (forEach_remind e tasks)) = length tasks"
proof (induction tasks)
  case Nil
  show ?case by (simp add: state_of_Inr)
next
  case (Cons task rest)
  then show ?case
    unfolding forEach_remind_Cons by simp
qed

lemma nth_forEach_remind:
  "i < length tasks \<Longrightarrow>
   state_of (forEach_remind e tasks) ! i =
     (if \<forall>j\<le>i. \<not> notification_fails e (tasks ! j) then state_of (remind_task e (tasks ! i))
      else tasks ! i)"
proof (induction tasks arbitrary: i)
  case Nil
  then show ?case by simp
next
  case (Cons task rest)
  show ?case
  proof (cases i)
    case 0
    show ?thesis
      unfolding 0 forEach_remind_Cons by simp
  next
    case (Suc k)
    with Cons.prems have k: "k < length rest" by simp
    have q: "(\<forall>j\<le>Suc k. \<not> notification_fails e ((task # rest) ! j)) =
        (\<not> notification_fails e task \<and> (\<forall>j\<le>k. \<not> notification_fails e (rest ! j)))"
    proof
      assume a: "\<forall>j\<le>Suc k. \<not> notification_fails e ((task # rest) ! j)"
      from a have "\<not> notification_fails e ((task # rest) ! 0)" by blast
      moreover have "\<not> notification_fails e (rest ! j)" if "j \<le> k" for j
        using a that by (metis Suc_le_mono nth_Cons_Suc)
      ultimately show "\<not> notification_fails e task \<and> (\<forall>j\<le>k. \<not> notification_fails e (rest ! j))"
        by simp
    next
      assume a: "\<not> notification_fails e task \<and> (\<forall>j\<le>k. \<not> notification_fails e (rest ! j))"
      show "\<forall>j\<le>Suc k. \<not> notification_fails e ((task # rest) ! j)"
      proof (intro allI impI)
        fix j
        assume "j \<le> Suc k"
        with a show "\<not> notification_fails e ((task # rest) ! j)"
          by (cases j) simp_all
      qed
    qed
    show ?thesis
      unfolding Suc q forEach_remind_Cons
      by (auto simp: Cons.IH [OF k])
  qed
qed

lemma state_of_and_then_save: "state_of (and_then r (save e)) = state_of r"
  by (cases r) (auto simp: and_then_def save_def state_of_def)

lemma state_of_scheduleReminders:
  "state_of (scheduleReminders e tasks) =
     (if notification_supported e then state_of (forEach_remind e tasks) else tasks)"
  by (simp add: scheduleReminders_def state_of_and_then_save state_of_Inr)

text \<open>
  Claim C3, amended. When the browser has no Notification interface,
  \<open>scheduleReminders\<close> returns at once and changes no task. When it has one, every
  task keeps all fields but \<open>reminded\<close>. The callback throws on a task exactly when the
  task has a due date of time value \<open>x\<close>, is not yet reminded and not completed,
  \<open>x - 30min \<le> now\<close> and \<open>x > now\<close>, permission is granted and the constructor of the
  notification throws; the loop ends there, so this task and the tasks behind it are
  unchanged. On the tasks up to the first such task: a task without due date (null or
  empty) or already reminded is unchanged; for a task with a due date of time value
  \<open>x\<close> that is not yet reminded, \<open>reminded\<close> becomes true exactly when
  \<open>x - 30min > now\<close> and \<open>(x - 30min) - now < 24h\<close>, or \<open>x - 30min \<le> now\<close> and
  \<open>x > now\<close>. A due string that is no date (time value NaN) leaves \<open>reminded\<close> false.
\<close>

theorem scheduleReminders_marks:
  "(\<not> notification_supported e \<longrightarrow> scheduleReminders e tasks = Inr tasks) \<and>
   (notification_supported e \<longrightarrow>
      length (state_of (scheduleReminders e tasks)) = length tasks \<and>
      (\<forall>i < length tasks.
         let task = tasks ! i; task' = state_of (scheduleReminders e tasks) ! i
         in task' = task\<lparr>reminded := reminded task'\<rparr> \<and>
            (due task = None \<or> due task = Some [] \<or> reminded task \<longrightarrow>
               task' = task \<and> \<not> notification_fails e task) \<and>
            (\<forall>d x. due task = Some d \<and> d \<noteq> [] \<and> \<not> reminded task \<and> date_ms e d = Fin x \<longrightarrow>
               notification_fails e task =
                 (x - 1800000 \<le> of_int (clock e) \<and> x > of_int (clock e) \<and>
                  permission_granted e \<and> \<not> completed task \<and> notification_throws e) \<and>
               ((\<forall>j\<le>i. \<not> notification_fails e (tasks ! j)) \<longrightarrow>
                  reminded task' =
                    ((x - 1800000 > of_int (clock e) \<and> x - 1800000 - of_int (clock e) < 86400000) \<or>
                     (x - 1800000 \<le> of_int (clock e) \<and> x > of_int (clock e))))) \<and>
            (\<forall>d. due task = Some d \<and> d \<noteq> [] \<and> \<not> reminded task \<and> date_ms e d = NaN \<longrightarrow>
               \<not> reminded task' \<and> \<not> notification_fails e task) \<and>
            ((\<exists>j\<le>i. notification_fails e (tasks ! j)) \<longrightarrow> task' = task)))"
proof (intro conjI impI allI)
  assume "\<not> notification_supported e"
  then show "scheduleReminders e tasks = Inr tasks"
    by (simp add: scheduleReminders_def)
next
  assume "notification_supported e"
  then show "length (state_of (scheduleReminders e tasks)) = length tasks"
    by (simp add: state_of_scheduleReminders length_forEach_remind)
next
  fix i
  assume n: "notification_supported e" and i: "i < length tasks"
  define task where "task = tasks ! i"
  define task' where "task' = state_of (scheduleReminders e tasks) ! i"
  have s: "task' = (if \<forall>j\<le>i. \<not> notification_fails e (tasks ! j)
                    then state_of (remind_task e task) else task)"
    unfolding task'_def task_def using n nth_forEach_remind [OF i, of e]
    by (simp add: state_of_scheduleReminders)
  have 1: "task' = task\<lparr>reminded := reminded task'\<rparr>"
    unfolding s using remind_task_frame [of e task] by simp
  have 2: "task' = task \<and> \<not> notification_fails e task"
    if "due task = None \<or> due task = Some [] \<or> reminded task"
    unfolding s using that
    by (simp add: remind_task_skip [of task e] notification_fails_skip [of task e] state_of_Inr)
  have 3: "notification_fails e task =
                 (x - 1800000 \<le> of_int (clock e) \<and> x > of_int (clock e) \<and>
                  permission_granted e \<and> \<not> completed task \<and> notification_throws e) \<and>
               ((\<forall>j\<le>i. \<not> notification_fails e (tasks ! j)) \<longrightarrow>
                  reminded task' =
                    ((x - 1800000 > of_int (clock e) \<and> x - 1800000 - of_int (clock e) < 86400000) \<or>
                     (x - 1800000 \<le> of_int (clock e) \<and> x > of_int (clock e))))"
    if h: "due task = Some d \<and> d \<noteq> [] \<and> \<not> reminded task \<and> date_ms e d = Fin x" for d x
  proof (intro conjI impI)
    from h have hs: "due task = Some d" "d \<noteq> []" "\<not> reminded task" "date_ms e d = Fin x"
      by simp_all
    show "notification_fails e task =
        (x - 1800000 \<le> of_int (clock e) \<and> x > of_int (clock e) \<and>
         permission_granted e \<and> \<not> completed task \<and> notification_throws e)"
      by (rule notification_fails_Fin [OF hs])
  next
    from h have hs: "due task = Some d" "d \<noteq> []" "\<not> reminded task" "date_ms e d = Fin x"
      by simp_all
    assume a: "\<forall>j\<le>i. \<not> notification_fails e (tasks ! j)"
    then have f: "\<not> notification_fails e task"
      unfolding task_def by blast
    from a have "task' = state_of (remind_task e task)"
      by (simp add: s)
    moreover have "reminded (state_of (remind_task e task)) =
        ((x - 1800000 > of_int (clock e) \<and> x - 1800000 - of_int (clock e) < 86400000) \<or>
         (x - 1800000 \<le> of_int (clock e) \<and> x > of_int (clock e)))"
      by (rule remind_task_Fin [OF hs f])
    ultimately show "reminded task' =
        ((x - 1800000 > of_int (clock e) \<and> x - 1800000 - of_int (clock e) < 86400000) \<or>
         (x - 1800000 \<le> of_int (clock e) \<and> x > of_int (clock e)))"
      by simp
  qed
  have 4: "\<not> reminded task' \<and> \<not> notification_fails e task"
    if h: "due task = Some d \<and> d \<noteq> [] \<and> \<not> reminded task \<and> date_ms e d = NaN" for d
  proof -
    from h have a: "due task = Some d" "d \<noteq> []" "\<not> reminded task" "date_ms e d = NaN"
      by simp_all
    have "remind_task e task = Inr task"
      by (rule remind_task_NaN [OF a])
    with h show ?thesis
      unfolding s by (simp add: notification_fails_def state_of_Inr)
  qed
  have 5: "task' = task" if "\<exists>j\<le>i. notification_fails e (tasks ! j)"
    unfolding s using that by auto
  from 1 2 3 4 5
  show "let task = tasks ! i; task' = state_of (scheduleReminders e tasks) ! i
         in task' = task\<lparr>reminded := reminded task'\<rparr> \<and>
            (due task = None \<or> due task = Some [] \<or> reminded task \<longrightarrow>
               task' = task \<and> \<not> notification_fails e task) \<and>
            (\<forall>d x. due task = Some d \<and> d \<noteq> [] \<and> \<not> reminded task \<and> date_ms e d = Fin x \<longrightarrow>
               notification_fails e task =
                 (x - 1800000 \<le> of_int (clock e) \<and> x > of_int (clock e) \<and>
                  permission_granted e \<and> \<not> completed task \<and> notification_throws e) \<and>
               ((\<forall>j\<le>i. \<not> notification_fails e (tasks ! j)) \<longrightarrow>
                  reminded task' =
                    ((x - 1800000 > of_int (clock e) \<and> x - 1800000 - of_int (clock e) < 86400000) \<or>
                     (x - 1800000 \<le> of_int (clock e) \<and> x > of_int (clock e))))) \<and>
            (\<forall>d. due task = Some d \<and> d \<noteq> [] \<and> \<not> reminded task \<and> date_ms e d = NaN \<longrightarrow>
               \<not> reminded task' \<and> \<not> notification_fails e task) \<and>
            ((\<exists>j\<le>i. notification_fails e (tasks ! j)) \<longrightarrow> task' = task)"
    unfolding Let_def task_def [symmetric] task'_def [symmetric] by blast
qed

theorem scheduleReminders_marks_witness:
  "length (state_of (scheduleReminders ex_env [ex_sub_task, example_task ''a''])) = 2 \<and>
   reminded (state_of (scheduleReminders ex_env [ex_sub_task, example_task ''a'']) ! 0) \<and>
   state_of (scheduleReminders ex_env [ex_sub_task, example_task ''a'']) ! 1 = example_task ''a'' \<and>
   notification_fails ex_env_late ex_sub_task \<and>
   state_of (scheduleReminders ex_env_late [ex_sub_task, ex_done_task]) ! 0 = ex_sub_task \<and>
   state_of (scheduleReminders ex_env_late [ex_sub_task, ex_done_task]) ! 1 = ex_done_task"
proof -
  have n: "notification_supported ex_env" "notification_supported ex_env_late"
    by (simp_all add: ex_env_late_def ex_env_def)
  have d: "due ex_sub_task = Some ''2025-01-10'' \<and> ''2025-01-10'' \<noteq> [] \<and> \<not> reminded ex_sub_task \<and>
      date_ms ex_env ''2025-01-10'' = Fin 1736467200000"
    and dl: "due ex_sub_task = Some ''2025-01-10'' \<and> ''2025-01-10'' \<noteq> [] \<and> \<not> reminded ex_sub_task \<and>
      date_ms ex_env_late ''2025-01-10'' = Fin 1736467200000"
    by (simp_all add: ex_env_late_def ex_env_def ex_sub_task_def)
  have c: "clock ex_env = 1736463600000" "\<not> notification_throws ex_env"
    by (simp_all add: ex_env_def)
  have cl: "clock ex_env_late = 1736466600000" "notification_throws ex_env_late"
    "permission_granted ex_env_late" "\<not> completed ex_sub_task"
    by (simp_all add: ex_env_late_def ex_env_def ex_sub_task_def)
  have a: "due (example_task ''a'') = None"
    by (simp add: example_task_def)
  from scheduleReminders_marks [of ex_env "[ex_sub_task, example_task ''a'']"] n(1)
  have len: "length (state_of (scheduleReminders ex_env [ex_sub_task, example_task ''a''])) = 2"
    and all: "\<forall>i < length [ex_sub_task, example_task ''a''].
         let task = [ex_sub_task, example_task ''a''] ! i;
             task' = state_of (scheduleReminders ex_env [ex_sub_task, example_task ''a'']) ! i
         in task' = task\<lparr>reminded := reminded task'\<rparr> \<and>
            (due task = None \<or> due task = Some [] \<or> reminded task \<longrightarrow>
               task' = task \<and> \<not> notification_fails ex_env task) \<and>
            (\<forall>d x. due task = Some d \<and> d \<noteq> [] \<and> \<not> reminded task \<and> date_ms ex_env d = Fin x \<longrightarrow>
               notification_fails ex_env task =
                 (x - 1800000 \<le> of_int (clock ex_env) \<and> x > of_int (clock ex_env) \<and>
                  permission_granted ex_env \<and> \<not> completed task \<and> notification_throws ex_env) \<and>
               ((\<forall>j\<le>i. \<not> notification_fails ex_env ([ex_sub_task, example_task ''a''] ! j)) \<longrightarrow>
                  reminded task' =
                    ((x - 1800000 > of_int (clock ex_env) \<and> x - 1800000 - of_int (clock ex_env) < 86400000) \<or>
                     (x - 1800000 \<le> of_int (clock ex_env) \<and> x > of_int (clock ex_env))))) \<and>
            (\<forall>d. due task = Some d \<and> d \<noteq> [] \<and> \<not> reminded task \<and> date_ms ex_env d = NaN \<longrightarrow>
               \<not> reminded task' \<and> \<not> notification_fails ex_env task) \<and>
            ((\<exists>j\<le>i. notification_fails ex_env ([ex_sub_task, example_task ''a''] ! j)) \<longrightarrow> task' = task)"
    by simp_all
  from all [rule_format, of 0] d
  have f: "notification_fails ex_env ex_sub_task =
      ((1736467200000::rat) - 1800000 \<le> of_int (clock ex_env) \<and> (1736467200000::rat) > of_int (clock ex_env) \<and>
       permission_granted ex_env \<and> \<not> completed ex_sub_task \<and> notification_throws ex_env)"
    and g: "(\<forall>j\<le>(0::nat). \<not> notification_fails ex_env ([ex_sub_task, example_task ''a''] ! j)) \<longrightarrow>
      reminded (state_of (scheduleReminders ex_env [ex_sub_task, example_task ''a'']) ! 0) =
      (((1736467200000::rat) - 1800000 > of_int (clock ex_env) \<and>
        (1736467200000::rat) - 1800000 - of_int (clock ex_env) < 86400000) \<or>
       ((1736467200000::rat) - 1800000 \<le> of_int (clock ex_env) \<and> (1736467200000::rat) > of_int (clock ex_env)))"
    unfolding Let_def by (simp_all only: nth_Cons_0 length_Cons list.size) blast+
  from f c have nf: "\<not> notification_fails ex_env ex_sub_task"
    by simp
  with g c have 0: "reminded (state_of (scheduleReminders ex_env [ex_sub_task, example_task ''a'']) ! 0)"
    by simp
  from all [rule_format, of 1] a
  have 1: "state_of (scheduleReminders ex_env [ex_sub_task, example_task ''a'']) ! 1 = example_task ''a''"
    by (simp add: Let_def)
  from scheduleReminders_marks [of ex_env_late "[ex_sub_task, ex_done_task]"] n(2)
  have alll: "\<forall>i < length [ex_sub_task, ex_done_task].
         let task = [ex_sub_task, ex_done_task] ! i;
             task' = state_of (scheduleReminders ex_env_late [ex_sub_task, ex_done_task]) ! i
         in task' = task\<lparr>reminded := reminded task'\<rparr> \<and>
            (due task = None \<or> due task = Some [] \<or> reminded task \<longrightarrow>
               task' = task \<and> \<not> notification_fails ex_env_late task) \<and>
            (\<forall>d x. due task = Some d \<and> d \<noteq> [] \<and> \<not> reminded task \<and> date_ms ex_env_late d = Fin x \<longrightarrow>
               notification_fails ex_env_late task =
                 (x - 1800000 \<le> of_int (clock ex_env_late) \<and> x > of_int (clock ex_env_late) \<and>
                  permission_granted ex_env_late \<and> \<not> completed task \<and> notification_throws ex_env_late) \<and>
               ((\<forall>j\<le>i. \<not> notification_fails ex_env_late ([ex_sub_task, ex_done_task] ! j)) \<longrightarrow>
                  reminded task' =
                    ((x - 1800000 > of_int (clock ex_env_late) \<and>
                      x - 1800000 - of_int (clock ex_env_late) < 86400000) \<or>
                     (x - 1800000 \<le> of_int (clock ex_env_late) \<and> x > of_int (clock ex_env_late))))) \<and>
            (\<forall>d. due task = Some d \<and> d \<noteq> [] \<and> \<not> reminded task \<and> date_ms ex_env_late d = NaN \<longrightarrow>
               \<not> reminded task' \<and> \<not> notification_fails ex_env_late task) \<and>
            ((\<exists>j\<le>i. notification_fails ex_env_late ([ex_sub_task, ex_done_task] ! j)) \<longrightarrow> task' = task)"
    by simp
  from alll [rule_format, of 0] dl
  have fl: "notification_fails ex_env_late ex_sub_task =
      ((1736467200000::rat) - 1800000 \<le> of_int (clock ex_env_late) \<and>
       (1736467200000::rat) > of_int (clock ex_env_late) \<and>
       permission_granted ex_env_late \<and> \<not> completed ex_sub_task \<and> notification_throws ex_env_late)"
    unfolding Let_def by (simp only: nth_Cons_0 length_Cons list.size) blast
  with cl have nfl: "notification_fails ex_env_late ex_sub_task"
    by simp
  then have e0: "\<exists>j\<le>(0::nat). notification_fails ex_env_late ([ex_sub_task, ex_done_task] ! j)"
    and e1: "\<exists>j\<le>(1::nat). notification_fails ex_env_late ([ex_sub_task, ex_done_task] ! j)"
    by (simp, intro exI [of _ 0], simp)
  from alll [rule_format, of 0] e0
  have l0: "state_of (scheduleReminders ex_env_late [ex_sub_task, ex_done_task]) ! 0 = ex_sub_task"
    unfolding Let_def by simp
  from alll [rule_format, of 1] e1
  have l1: "state_of (scheduleReminders ex_env_late [ex_sub_task, ex_done_task]) ! 1 = ex_done_task"
    unfolding Let_def by simp
  from len 0 1 nfl l0 l1 show ?thesis by blast
qed

text \<open>
  The claim as stated fails in a browser without the Notification interface: one hour
  before the due time the condition of the claim holds, and the task is not marked.
\<close>

theorem scheduleReminders_unsupported_counterexample:
  "due ex_sub_task = Some ''2025-01-10'' \<and> \<not> reminded ex_sub_task \<and>
   date_ms ex_env ''2025-01-10'' = Fin 1736467200000 \<and>
   (1736467200000::rat) - 1800000 > of_int (clock ex_env) \<and>
   (1736467200000::rat) - 1800000 - of_int (clock ex_env) < 86400000 \<and>
   \<not> reminded (state_of (scheduleReminders (ex_env\<lparr>notification_supported := False\<rparr>) [ex_sub_task]) ! 0)"
  by (simp add: scheduleReminders_def state_of_def ex_env_def ex_sub_task_def)

section \<open>Claims about adding tasks\<close>

lemma length_render: "length (render b tasks) = length tasks"
  by (simp add: render_def)

lemma nth_render: "i < length tasks \<Longrightarrow> render b tasks ! i = render_task (b i) (tasks ! i)"
  by (simp add: render_def)

lemma render_Cons: "render b (t # ts) = render_task (b 0) t # render (\<lambda>i. b (Suc i)) ts"
proof (rule nth_equalityI)
  show "length (render b (t # ts)) = length (render_task (b 0) t # render (\<lambda>i. b (Suc i)) ts)"
    by (simp add: length_render)
next
  fix i
  assume "i < length (render b (t # ts))"
  then have i: "i < Suc (length ts)"
    by (simp add: length_render)
  show "render b (t # ts) ! i = (render_task (b 0) t # render (\<lambda>i. b (Suc i)) ts) ! i"
  proof (cases i)
    case 0
    then show ?thesis using nth_render [of 0 "t # ts" b] by simp
  next
    case (Suc j)
    with i have j: "j < length ts" by simp
    from Suc i have "render b (t # ts) ! i = render_task (b (Suc j)) (ts ! j)"
      using nth_render [of i "t # ts" b] by simp
    with Suc j show ?thesis
      by (simp add: nth_render)
  qed
qed

lemma kept_render_task: "kept_fields (render_task b t) = kept_fields t"
  by (simp add: kept_fields_def render_task_def updateTaskProgress_def Let_def)

lemma kept_remind_task: "kept_fields (state_of (remind_task e t)) = kept_fields t"
  using remind_task_cases [of e t] by (auto simp: kept_fields_def state_of_def)

lemma kept_render: "map kept_fields (render b tasks) = map kept_fields tasks"
  by (rule nth_equalityI) (simp_all add: length_render nth_render kept_render_task)

lemma kept_forEach_remind: "map kept_fields (state_of (forEach_remind e tasks)) = map kept_fields tasks"
proof (induction tasks)
  case Nil
  show ?case by (simp add: state_of_Inr)
next
  case (Cons task rest)
  then show ?case
    unfolding forEach_remind_Cons by (simp add: kept_remind_task)
qed

lemma kept_scheduleReminders:
  "map kept_fields (state_of (scheduleReminders e tasks)) = map kept_fields tasks"
  by (simp add: state_of_scheduleReminders kept_forEach_remind)

lemma scheduleReminders_Cons:
  "\<exists>rest'. state_of (scheduleReminders e (t # rest)) =
            (if notification_supported e then state_of (remind_task e t) else t) # rest' \<and>
          map kept_fields rest' = map kept_fields rest"
proof (cases "notification_supported e")
  case False
  then show ?thesis by (simp add: state_of_scheduleReminders)
next
  case True
  show ?thesis
  proof (cases "notification_fails e t")
    case f: True
    then have "state_of (remind_task e t) = t"
      by (simp add: notification_fails_unchanged state_of_Inl)
    with True f show ?thesis
      unfolding state_of_scheduleReminders forEach_remind_Cons by simp
  next
    case f: False
    with True show ?thesis
      unfolding state_of_scheduleReminders forEach_remind_Cons
      by (simp add: kept_forEach_remind)
  qed
qed

lemma render_task_newTask: "render_task b (newTask ev) = newTask ev"
  by (simp add: render_task_def updateTaskProgress_def newTask_def)

lemma remind_task_no_due: "due t = None \<Longrightarrow> state_of (remind_task e t) = t"
  by (simp add: remind_task_def state_of_def)

lemma submit_handler_valid:
  assumes "trim (input_value ev) \<noteq> []"
  shows "\<exists>rest. submit_handler e ev tasks =
           (if render_returned ev \<and> notification_supported e \<and> \<not> setItem_throws e (newTask ev # tasks)
            then state_of (remind_task e (newTask ev)) else newTask ev) # rest \<and>
         map kept_fields rest = map kept_fields tasks"
proof -
  let ?r = "render (\<lambda>i. built ev (Suc i)) tasks"
  have r: "render (built ev) (newTask ev # tasks) = newTask ev # ?r"
    by (simp add: render_Cons render_task_newTask)
  have k: "map kept_fields ?r = map kept_fields tasks"
    by (rule kept_render)
  show ?thesis
  proof (cases "setItem_throws e (newTask ev # tasks)")
    case True
    with assms show ?thesis
      by (simp add: submit_handler_def Let_def)
  next
    case s: False
    show ?thesis
    proof (cases "render_returned ev")
      case True
      from scheduleReminders_Cons [of e "newTask ev" ?r] obtain rest'
        where c: "state_of (scheduleReminders e (newTask ev # ?r)) =
            (if notification_supported e then state_of (remind_task e (newTask ev)) else newTask ev) # rest'"
          and k': "map kept_fields rest' = map kept_fields ?r"
        by blast
      from assms s True have "submit_handler e ev tasks = state_of (scheduleReminders e (newTask ev # ?r))"
        by (simp add: submit_handler_def Let_def r)
      with c k k' s True show ?thesis by simp
    next
      case False
      with assms s have "submit_handler e ev tasks = newTask ev # ?r"
        by (simp add: submit_handler_def Let_def r)
      with k False show ?thesis by simp
    qed
  qed
qed

text \<open>
  Claim C10. A submission with a text that is not blank and an empty date input puts a
  new task in front of the array, with \<open>due\<close> null, \<open>completed\<close> and \<open>reminded\<close>
  false and no subtasks; the text is the trimmed input, the id is the uid drawn. The
  tasks that were there follow in their order, with all fields as before except the
  flags \<open>completed\<close> and \<open>reminded\<close>, which \<open>render\<close> and \<open>scheduleReminders\<close> may
  recompute.
\<close>

theorem submit_empty_due:
  assumes "trim (input_value ev) \<noteq> []" and "date_value ev = []"
  shows "\<exists>rest. submit_handler e ev tasks =
           \<lparr>task_id = uid (uid_clock ev) (uid_random ev), task_text = trim (input_value ev),
            category = category_value ev, priority = priority_value ev, due = None,
            created = created_clock ev, completed = False, subtasks = [], reminded = False\<rparr> # rest \<and>
         map kept_fields rest = map kept_fields tasks"
proof -
  have d: "due (newTask ev) = None"
    using assms(2) by (simp add: newTask_def)
  have n: "newTask ev = \<lparr>task_id = uid (uid_clock ev) (uid_random ev), task_text = trim (input_value ev),
            category = category_value ev, priority = priority_value ev, due = None,
            created = created_clock ev, completed = False, subtasks = [], reminded = False\<rparr>"
    using assms(2) by (simp add: newTask_def)
  from submit_handler_valid [OF assms(1), of e tasks] obtain rest
    where r: "submit_handler e ev tasks =
        (if render_returned ev \<and> notification_supported e \<and> \<not> setItem_throws e (newTask ev # tasks)
         then state_of (remind_task e (newTask ev)) else newTask ev) # rest"
      and k: "map kept_fields rest = map kept_fields tasks"
    by blast
  from r have "submit_handler e ev tasks = newTask ev # rest"
    by (simp add: remind_task_no_due [OF d])
  then have "submit_handler e ev tasks =
      \<lparr>task_id = uid (uid_clock ev) (uid_random ev), task_text = trim (input_value ev),
       category = category_value ev, priority = priority_value ev, due = None,
       created = created_clock ev, completed = False, subtasks = [], reminded = False\<rparr> # rest"
    using n by simp
  with k show ?thesis by blast
qed


theorem submit_empty_due_witness:
  "hd (submit_handler ex_env ex_event [example_task ''a'']) =
     \<lparr>task_id = ''m5pzqio0k3f9'', task_text = ''Buy milk'', category = ''Personal'',
      priority = ''Low'', due = None, created = 1736467200000, completed = False,
      subtasks = [], reminded = False\<rparr> \<and>
   map task_id (tl (submit_handler ex_env ex_event [example_task ''a''])) = [''a'']"
proof -
  have t: "trim (input_value ex_event) = ''Buy milk''"
    by (simp add: ex_event_def trim_def is_space_def)
  have u: "uid (uid_clock ex_event) (uid_random ex_event) = ''m5pzqio0k3f9''"
    by (simp add: ex_event_def uid_def toString36_def digits36.simps)
  have v: "trim (input_value ex_event) \<noteq> []" and d: "date_value ex_event = []"
    by (simp_all add: t) (simp add: ex_event_def)
  from submit_empty_due [OF v d, of ex_env "[example_task ''a'']"] obtain rest
    where r: "submit_handler ex_env ex_event [example_task ''a''] =
       \<lparr>task_id = uid (uid_clock ex_event) (uid_random ex_event),
        task_text = trim (input_value ex_event),
        category = category_value ex_event, priority = priority_value ex_event, due = None,
        created = created_clock ex_event, completed = False, subtasks = [], reminded = False\<rparr> # rest"
      and k: "map kept_fields rest = map kept_fields [example_task ''a'']"
    by blast
  from k have "map fst (map kept_fields rest) = map fst (map kept_fields [example_task ''a''])"
    by simp
  then have "map task_id rest = [''a'']"
    by (simp add: kept_fields_def comp_def example_task_def)
  with r t u show ?thesis
    by (simp add: ex_event_def)
qed

lemma ids_submit_handler:
  "map task_id (submit_handler e ev tasks) =
     (if trim (input_value ev) = [] then map task_id tasks
      else uid (uid_clock ev) (uid_random ev) # map task_id tasks)"
proof (cases "trim (input_value ev) = []")
  case True
  then show ?thesis by (simp add: submit_handler_def)
next
  case False
  from submit_handler_valid [OF False, of e tasks] obtain rest
    where r: "submit_handler e ev tasks =
        (if render_returned ev \<and> notification_supported e \<and> \<not> setItem_throws e (newTask ev # tasks)
         then state_of (remind_task e (newTask ev)) else newTask ev) # rest"
      and k: "map kept_fields rest = map kept_fields tasks"
    by blast
  from k have "map fst (map kept_fields rest) = map fst (map kept_fields tasks)"
    by simp
  then have ids: "map task_id rest = map task_id tasks"
    by (simp add: kept_fields_def comp_def)
  have "task_id (state_of (remind_task e (newTask ev))) = task_id (newTask ev)"
    using kept_remind_task [of e "newTask ev"] by (simp add: kept_fields_def)
  then have "task_id (if render_returned ev \<and> notification_supported e \<and>
           \<not> setItem_throws e (newTask ev # tasks)
         then state_of (remind_task e (newTask ev)) else newTask ev) = uid (uid_clock ev) (uid_random ev)"
    by (simp add: newTask_def)
  with r ids False show ?thesis by simp
qed

lemma ids_add_all: "map task_id (add_all evs tasks) = rev (drawn_ids evs) @ map task_id tasks"
proof (induction evs arbitrary: tasks)
  case Nil
  then show ?case by (simp add: drawn_ids_def)
next
  case (Cons p evs)
  obtain e ev where p: "p = (e, ev)" by (cases p)
  show ?case
    unfolding p by (simp add: Cons.IH ids_submit_handler drawn_ids_def)
qed

lemma char_index_nth: "distinct xs \<Longrightarrow> n < length xs \<Longrightarrow> char_index (xs ! n) xs = n"
proof (induction xs arbitrary: n)
  case Nil
  then show ?case by simp
next
  case (Cons x xs)
  then show ?case by (cases n) auto
qed

lemma digits36_value:
  "foldl (\<lambda>v c. 36 * v + char_index c ''0123456789abcdefghijklmnopqrstuvwxyz'') 0 (digits36 n) = n"
proof -
  define ds where "ds = ''0123456789abcdefghijklmnopqrstuvwxyz''"
  have idx: "char_index (ds ! k) ds = k" if "k < 36" for k
    using that by (intro char_index_nth) (simp_all add: ds_def)
  have e: "digits36 n = (if n < 36 then [ds ! n] else digits36 (n div 36) @ [ds ! (n mod 36)])" for n
    by (subst digits36.simps) (simp add: ds_def)
  have "foldl (\<lambda>v c. 36 * v + char_index c ds) 0 (digits36 n) = n"
  proof (induction n rule: digits36.induct)
    case (1 n)
    show ?case
    proof (cases "n < 36")
      case True
      then show ?thesis
        by (subst e) (simp add: idx)
    next
      case False
      have m: "n mod 36 < 36" by simp
      from False 1 show ?thesis
        by (subst e) (simp add: idx [OF m])
    qed
  qed
  then show ?thesis by (simp add: ds_def)
qed

lemma digits36_inj: "digits36 m = digits36 n \<Longrightarrow> m = n"
  using digits36_value [of m] digits36_value [of n] by simp

lemma uid_inj:
  assumes "0 \<le> c1" "0 \<le> c2" "length r1 = length r2" "uid c1 r1 = uid c2 r2"
  shows "c1 = c2 \<and> r1 = r2"
proof -
  from assms(3,4) have "toString36 c1 = toString36 c2 \<and> r1 = r2"
    by (simp add: uid_def)
  with assms(1,2) have "digits36 (nat c1) = digits36 (nat c2)" and r: "r1 = r2"
    by (simp_all add: toString36_def)
  then have "nat c1 = nat c2" by (intro digits36_inj)
  with assms(1,2) r show ?thesis by simp
qed

lemma distinct_map_via:
  assumes "distinct (map g xs)"
    and "\<forall>x\<in>set xs. \<forall>y\<in>set xs. f x = f y \<longrightarrow> g x = g y"
  shows "distinct (map f xs)"
proof -
  from assms(1) have d: "distinct xs" and i: "inj_on g (set xs)"
    by (simp_all add: distinct_map)
  have "inj_on f (set xs)"
  proof (rule inj_onI)
    fix x y
    assume x: "x \<in> set xs" and y: "y \<in> set xs" and "f x = f y"
    with assms(2) have "g x = g y" by blast
    with i x y show "x = y" by (simp add: inj_on_def)
  qed
  with d show ?thesis by (simp add: distinct_map)
qed

text \<open>
  Ids drawn at pairwise distinct clock readings are pairwise distinct when every
  random part has four digits (the clock is not negative).
\<close>

lemma drawn_ids_distinct:
  assumes "\<forall>(e, ev)\<in>set evs. 0 \<le> uid_clock ev \<and> length (uid_random ev) = 4"
    and "distinct (map (\<lambda>(e, ev). uid_clock ev) (filter (\<lambda>(e, ev). trim (input_value ev) \<noteq> []) evs))"
  shows "distinct (drawn_ids evs)"
  unfolding drawn_ids_def
proof (rule distinct_map_via [OF assms(2)], intro ballI impI)
  fix x y
  assume x: "x \<in> set (filter (\<lambda>(e, ev). trim (input_value ev) \<noteq> []) evs)"
    and y: "y \<in> set (filter (\<lambda>(e, ev). trim (input_value ev) \<noteq> []) evs)"
    and eq: "(case x of (e, ev) \<Rightarrow> uid (uid_clock ev) (uid_random ev)) =
             (case y of (e, ev) \<Rightarrow> uid (uid_clock ev) (uid_random ev))"
  obtain e1 ev1 e2 ev2 where p: "x = (e1, ev1)" "y = (e2, ev2)"
    by (cases x, cases y) auto
  from x y have m: "(e1, ev1) \<in> set evs" "(e2, ev2) \<in> set evs"
    by (simp_all add: p)
  from assms(1) m(1) have 1: "0 \<le> uid_clock ev1" "length (uid_random ev1) = 4"
    by blast+
  from assms(1) m(2) have 2: "0 \<le> uid_clock ev2" "length (uid_random ev2) = 4"
    by blast+
  from eq have u: "uid (uid_clock ev1) (uid_random ev1) = uid (uid_clock ev2) (uid_random ev2)"
    by (simp only: p prod.case)
  have l: "length (uid_random ev1) = length (uid_random ev2)"
    by (simp only: 1 2)
  from uid_inj [OF 1(1) 2(1) l u]
  show "(case x of (e, ev) \<Rightarrow> uid_clock ev) = (case y of (e, ev) \<Rightarrow> uid_clock ev)"
    by (simp only: p prod.case)
qed

text \<open>
  Claim C8, amended. After a sequence of submissions the ids in the store are pairwise
  distinct exactly when the ids in the store were pairwise distinct before, the ids
  drawn by the valid submissions (clock in base 36 followed by the random digits) are
  pairwise distinct, and none of them was in the store. The handler does not compare a
  new id with the others; lemma \<open>drawn_ids_distinct\<close> gives a case in which the ids drawn
  are distinct.
\<close>

theorem add_all_distinct_iff:
  "distinct (map task_id (add_all evs tasks)) =
     (distinct (drawn_ids evs) \<and> distinct (map task_id tasks) \<and>
      set (drawn_ids evs) \<inter> set (map task_id tasks) = {})"
  unfolding ids_add_all by auto

text \<open>
  The claim as stated fails: two valid submissions that read the same clock and draw
  the same random digits give two tasks with the same id.
\<close>

theorem add_all_duplicate_counterexample:
  "map task_id (add_all [(ex_env, ex_event), (ex_env, ex_event)] []) =
     [''m5pzqio0k3f9'', ''m5pzqio0k3f9''] \<and>
   \<not> distinct (map task_id (add_all [(ex_env, ex_event), (ex_env, ex_event)] []))"
  unfolding ids_add_all
  by (simp add: drawn_ids_def ex_event_def trim_def is_space_def uid_def
      toString36_def digits36.simps)

section \<open>Claims about filtering and sorting\<close>

lemmas stn = StringToNumber_def non_decimal_def unsigned_decimal_def exponent_part_def pow10_def
  digits_value_def is_digit_def trim_def is_space_def lower_char_def Let_def char_of_def bit_iff_odd


lemma extends_alloc: "extends h (alloc h xs)"
  by (simp add: extends_def alloc_def)

lemma array_of_alloc: "array_of (alloc h xs) = xs"
  by (simp add: array_of_def alloc_def)

lemma extends_filter_array: "extends h s \<Longrightarrow> extends h (filter_array p s)"
  by (cases s) (auto simp: extends_def filter_array_def alloc_def)

lemma array_of_filter_array: "array_of (filter_array p s) = filter p (array_of s)"
  by (cases s) (simp add: array_of_def filter_array_def alloc_def)

lemma extends_sort_array: "extends h s \<Longrightarrow> extends h (sort_array cmp s)"
  by (cases s) (auto simp: extends_def sort_array_def take_update_cancel)

lemma array_of_sort_array:
  "extends h s \<Longrightarrow> array_of (sort_array cmp s) = array_sort cmp (array_of s)"
  by (cases s) (auto simp: extends_def array_of_def sort_array_def)

lemma applyFilters_extends:
  assumes "list < length h"
  shows "\<exists>s. applyFilters e h list = Some s \<and> extends h s \<and> array_of s = filtered_view e (h ! list)"
proof -
  define q where "q = toLowerCase (trim (search_value e))"
  define s0 where "s0 = alloc h (h ! list)"
  define s1 where "s1 = (if q \<noteq> [] then filter_array (matches_search q) s0 else s0)"
  define s2 where "s2 =
     (if filter_status_value e = ''pending'' then filter_array (\<lambda>t. \<not> completed t) s1
      else if filter_status_value e = ''completed'' then filter_array completed s1
      else if filter_status_value e = ''overdue'' then filter_array (is_overdue e) s1
      else s1)"
  define s3 where "s3 =
     (if filter_category_value e \<noteq> ''all''
      then filter_array (\<lambda>t. category t = filter_category_value e) s2 else s2)"
  define s4 where "s4 = (case comparator (sort_by_value e) of None \<Rightarrow> s3 | Some cmp \<Rightarrow> sort_array cmp s3)"
  define v1 where "v1 = (if q \<noteq> [] then filter (matches_search q) (h ! list) else h ! list)"
  define v2 where "v2 =
     (if filter_status_value e = ''pending'' then filter (\<lambda>t. \<not> completed t) v1
      else if filter_status_value e = ''completed'' then filter completed v1
      else if filter_status_value e = ''overdue'' then filter (is_overdue e) v1
      else v1)"
  define v3 where "v3 =
     (if filter_category_value e \<noteq> ''all''
      then filter (\<lambda>t. category t = filter_category_value e) v2 else v2)"
  have e0: "extends h s0" and a0: "array_of s0 = h ! list"
    by (simp_all add: s0_def extends_alloc array_of_alloc)
  have e1: "extends h s1" and a1: "array_of s1 = v1"
    using e0 a0 by (simp_all add: s1_def v1_def extends_filter_array array_of_filter_array)
  have e2: "extends h s2" and a2: "array_of s2 = v2"
    using e1 a1 by (simp_all add: s2_def v2_def extends_filter_array array_of_filter_array)
  have e3: "extends h s3" and a3: "array_of s3 = v3"
    using e2 a2 by (simp_all add: s3_def v3_def extends_filter_array array_of_filter_array)
  have e4: "extends h s4"
    using e3 by (simp add: s4_def extends_sort_array split: option.splits)
  have a4: "array_of s4 =
      (case comparator (sort_by_value e) of None \<Rightarrow> v3 | Some cmp \<Rightarrow> array_sort cmp v3)"
    using a3 array_of_sort_array [OF e3] by (simp add: s4_def split: option.splits)
  have r: "applyFilters e h list = Some s4"
    unfolding applyFilters_def Let_def s4_def s3_def s2_def s1_def s0_def q_def
    using assms by simp
  have v: "filtered_view e (h ! list) =
      (case comparator (sort_by_value e) of None \<Rightarrow> v3 | Some cmp \<Rightarrow> array_sort cmp v3)"
    unfolding filtered_view_def Let_def v3_def v2_def v1_def q_def by simp
  from r e4 a4 v show ?thesis by simp
qed

text \<open>
  Claim C6. For every environment (search text, status, category and sort key) and every
  array in the store, \<open>applyFilters\<close> returns, and afterwards every array that was in
  the store, the input among them, holds the same tasks in the same order: the result
  is a new array, made by \<open>slice\<close> and the filters, and only this array is sorted. The
  result is the array that \<open>filtered_view\<close> computes.
\<close>

theorem applyFilters_pure:
  assumes "list < length h"
  shows "\<exists>h' r. applyFilters e h list = Some (h', r) \<and>
           take (length h) h' = h \<and> h' ! list = h ! list \<and>
           length h \<le> r \<and> r < length h' \<and> h' ! r = filtered_view e (h ! list)"
proof -
  from applyFilters_extends [OF assms, of e] obtain s
    where s: "applyFilters e h list = Some s" "extends h s" "array_of s = filtered_view e (h ! list)"
    by blast
  obtain h' r where p: "s = (h', r)" by (cases s)
  from s(2) have t: "take (length h) h' = h" and b: "length h \<le> r" "r < length h'"
    by (simp_all add: extends_def p)
  have "take (length h) h' ! list = h' ! list"
    using assms by simp
  with t have "h' ! list = h ! list" by simp
  with s t b show ?thesis
    by (simp add: p array_of_def)
qed

theorem applyFilters_pure_witness:
  "applyFilters (ex_env\<lparr>sort_by_value := ''created_desc''\<rparr>) [ex_dates] 0 \<noteq> None \<and>
   fst (the (applyFilters (ex_env\<lparr>sort_by_value := ''created_desc''\<rparr>) [ex_dates] 0)) ! 0 = ex_dates"
proof -
  have "(0::nat) < length [ex_dates]" by simp
  from applyFilters_pure [OF this, of "ex_env\<lparr>sort_by_value := ''created_desc''\<rparr>"]
  show ?thesis by auto
qed

lemma insert_sorted_front:
  "(\<forall>y\<in>set ys. \<not> js_gt (sort_compare cmp x y) (Fin 0)) \<Longrightarrow> insert_sorted cmp x ys = x # ys"
  by (cases ys) simp_all

lemma array_sort_unordered:
  "(\<forall>x\<in>set xs. \<forall>y\<in>set xs. \<not> js_gt (sort_compare cmp x y) (Fin 0)) \<Longrightarrow> array_sort cmp xs = xs"
proof (induction xs)
  case Nil
  then show ?case by (simp add: array_sort_def)
next
  case (Cons x xs)
  then have "array_sort cmp xs = xs" by simp
  moreover have "insert_sorted cmp x xs = x # xs"
    using Cons.prems by (intro insert_sorted_front) simp
  ultimately show ?case by (simp add: array_sort_def)
qed

lemma sort_compare_NaN: "cmp x y = NaN \<Longrightarrow> \<not> js_gt (sort_compare cmp x y) (Fin 0)"
  by (simp add: sort_compare_def js_gt_def)

lemma js_sub_NaN_PInf: "a \<in> {NaN, PInf} \<Longrightarrow> b \<in> {NaN, PInf} \<Longrightarrow> js_sub a b = NaN"
  by auto

lemma date_asc_no_order:
  assumes "\<forall>t\<in>set xs. due_or PInf t \<in> {NaN, PInf}"
  shows "array_sort (\<lambda>a b. js_sub (due_or PInf a) (due_or PInf b)) xs = xs"
  using assms by (intro array_sort_unordered ballI sort_compare_NaN js_sub_NaN_PInf) auto

lemma due_or_ex_dates: "\<forall>t\<in>set ex_dates. due_or PInf t \<in> {NaN, PInf}"
  by (simp add: ex_dates_def dated_task_def example_task_def due_or_def stn)

text \<open>
  Sanity of the model of \<open>sort\<close>: the key \<open>created_desc\<close> orders by the creation time,
  newest first, and the date comparator orders as Scenario E expects once the due
  dates are read as time values.
\<close>

lemma created_desc_sorts:
  "map created
     (array_sort (the (comparator ''created_desc''))
        [(example_task ''a'')\<lparr>created := 1\<rparr>, (example_task ''b'')\<lparr>created := 3\<rparr>,
         (example_task ''c'')\<lparr>created := 2\<rparr>]) = [3, 2, 1]"
  by (simp add: comparator_def array_sort_def sort_compare_def js_gt_def example_task_def)

lemma date_asc_on_time_values:
  "array_sort (\<lambda>a b. js_sub (due_time_or ex_env PInf a) (due_time_or ex_env PInf b)) ex_dates =
     [dated_task ''j05'' (Some ''2025-01-05''), dated_task ''j10'' (Some ''2025-01-10''),
      dated_task ''n'' None]"
  by (simp add: array_sort_def sort_compare_def js_gt_def due_time_or_def ex_dates_def
      dated_task_def example_task_def ex_env_def)

text \<open>
  Claim C4: the code does not do what the claim says. With the sort key \<open>date_asc\<close> and
  no filter, the three tasks of Scenario E (due date null, 2025-01-10, 2025-01-05) come
  back in the order they were given: the comparator subtracts the date strings, which
  are not numerals, so each comparison is NaN and counts as equal.
\<close>

theorem date_asc_leaves_order:
  "applyFilters ex_env [ex_dates] 0 = Some ([ex_dates, ex_dates], 1) \<and>
   map due ex_dates = [None, Some ''2025-01-10'', Some ''2025-01-05'']"
proof -
  have c: "comparator (sort_by_value ex_env) = Some (\<lambda>a b. js_sub (due_or PInf a) (due_or PInf b))"
    by (simp add: comparator_def ex_env_def)
  have q: "toLowerCase (trim (search_value ex_env)) = []"
    by (simp add: ex_env_def trim_def toLowerCase_def)
  have s: "filter_status_value ex_env = ''all''" "filter_category_value ex_env = ''all''"
    by (simp_all add: ex_env_def)
  have "applyFilters ex_env [ex_dates] 0 =
      Some (sort_array (\<lambda>a b. js_sub (due_or PInf a) (due_or PInf b)) (alloc [ex_dates] ex_dates))"
    by (simp add: applyFilters_def Let_def c q s)
  also have "\<dots> = Some ([ex_dates, ex_dates], 1)"
    by (simp add: sort_array_def alloc_def date_asc_no_order [OF due_or_ex_dates])
  finally show ?thesis
    by (simp add: ex_dates_def dated_task_def example_task_def)
qed

section \<open>Claims about persistence\<close>

lemmas jp = JSON_parse_def json_number_def is_num_char_def is_word_char_def is_hex_def
  unescape_def code_unit_def exponent_part_def pow10_def digits_value_def is_digit_def
  lower_char_def Let_def char_of_def bit_iff_odd


lemma ex_stored_parse: "JSON_parse ex_stored = Some ex_stored_json"
  by (simp add: jp ex_stored_def dq_def ex_stored_json_def)

lemma ex_stored_tasks: "is_task_array ex_stored_json"
  by (simp add: ex_stored_json_def is_task_array_def as_task_def field_def as_due_def as_int_def
      as_subtasks_def as_subtask_def)

text \<open>
  Claim C7, amended. When the storage cannot be read, the key is missing, or the stored
  text is empty or not JSON, \<open>load\<close> leaves the empty array in \<open>tasks\<close>, which is a
  well-formed sequence of tasks. For every other stored text, \<open>load\<close> leaves the value
  that \<open>JSON_parse\<close> returns, whatever it is: the value is not checked.
\<close>

theorem load_outcomes:
  "load ReadError = JArr [] \<and> load Missing = JArr [] \<and> load (Stored []) = JArr [] \<and>
   is_task_array (JArr []) \<and>
   (JSON_parse s = None \<longrightarrow> load (Stored s) = JArr []) \<and>
   (s \<noteq> [] \<and> JSON_parse s = Some v \<longrightarrow> load (Stored s) = v)"
proof -
  have e: "JSON_parse ''[]'' = Some (JArr [])"
    by (simp add: jp)
  show ?thesis
    by (simp add: load_def e is_task_array_def)
qed

theorem load_outcomes_witness:
  "load (Stored ''{oops'') = JArr [] \<and> load (Stored '' [ ] '') = JArr [] \<and>
   is_task_array (load (Stored ex_stored))"
proof -
  have 1: "JSON_parse ''{oops'' = None" and 2: "'' [ ] '' \<noteq> [] \<and> JSON_parse '' [ ] '' = Some (JArr [])"
    by (simp_all add: jp)
  have 3: "ex_stored \<noteq> []"
    by (simp add: ex_stored_def)
  from load_outcomes [of "''{oops''"] load_outcomes [of "'' [ ] ''" "JArr []"]
    load_outcomes [of ex_stored ex_stored_json] 1 2 3 ex_stored_parse ex_stored_tasks
  show ?thesis by simp
qed

text \<open>
  The claim as stated fails for JSON texts that are not arrays of tasks: the stored
  texts \<^verbatim>\<open>null\<close>, \<^verbatim>\<open>[1]\<close> and \<^verbatim>\<open>{}\<close> are loaded as they are, and after
  \<^verbatim>\<open>null\<close> the guard of \<open>seedIfEmpty\<close> throws.
\<close>

theorem load_unchecked_counterexample:
  "load (Stored ''null'') = JNull \<and> \<not> is_task_array (load (Stored ''null'')) \<and>
   seedIfEmpty (JArr []) (load (Stored ''null'')) = Inl TypeError \<and>
   load (Stored ''[1]'') = JArr [JNum 1] \<and> \<not> is_task_array (load (Stored ''[1]'')) \<and>
   load (Stored ''{}'') = JObj [] \<and> \<not> is_task_array (load (Stored ''{}''))"
  by (simp add: load_def jp is_task_array_def as_task_def seedIfEmpty_def)

end
